theory Spec2Isabelle
  imports Main "HOL-Library.Word"
begin

unbundle bit_operations_syntax

section \<open>Intel HEX record checker: the C program as HOL functions\<close>

text \<open>
  The program reads \<^verbatim>\<open>hex_file.hex\<close> line by line with \<^verbatim>\<open>fgets\<close> and works on each
  line as a C string. A line is modelled as the list of its characters before the
  terminating NUL (so it ends with a newline character when \<^verbatim>\<open>fgets\<close> read one), and a
  file as the list of the lines that successive \<^verbatim>\<open>fgets\<close> calls return.

  Platform assumptions, written out where they are used: \<^verbatim>\<open>size_t\<close> has 64 bits,
  \<^verbatim>\<open>unsigned int\<close> has 32 bits, stores are little-endian, conversions between integer
  types of different signedness or width keep the low bits, and the C library is the GNU
  C library (for the size of the blocks of \<^verbatim>\<open>malloc\<close> and for the conversion of a
  hexadecimal prefix without digits).
\<close>

subsection \<open>Results of C functions\<close>

text \<open>
  \<open>Undefined\<close> marks an execution that leaves the memory it was given: a read past the
  terminator of the C string or before its first character, or a store that runs into
  the allocator's bookkeeping behind a block. The C standard assigns no result to it;
  the program may stop with a fault, then or in a later call.
\<close>

datatype 'a outcome = Returns 'a | Undefined

subsection \<open>The pieces of the C library that the program calls\<close>

text \<open>\<^verbatim>\<open>isspace\<close> in the C locale: space, \<^verbatim>\<open>\t \n \v \f \r\<close>.\<close>

definition isspace :: "char \<Rightarrow> bool" where
  "isspace c = (c = CHR '' '' \<or> c = CHR 0x09 \<or> c = CHR 0x0A \<or> c = CHR 0x0B
                \<or> c = CHR 0x0C \<or> c = CHR 0x0D)"

text \<open>The value of a hexadecimal digit, \<open>None\<close> for any other character.\<close>

definition hexval :: "char \<Rightarrow> nat option" where
  "hexval c = (let n = (of_char c :: nat) in
     if 48 \<le> n \<and> n \<le> 57 then Some (n - 48)
     else if 65 \<le> n \<and> n \<le> 70 then Some (n - 55)
     else if 97 \<le> n \<and> n \<le> 102 then Some (n - 87)
     else None)"

definition isxdigit :: "char \<Rightarrow> bool" where
  "isxdigit c = (hexval c \<noteq> None)"

definition hex_value :: "string \<Rightarrow> nat" where
  "hex_value ds = foldl (\<lambda>v c. 16 * v + (case hexval c of Some d \<Rightarrow> d | None \<Rightarrow> 0)) 0 ds"

text \<open>
  The conversion \<^verbatim>\<open>%ws\<close> of \<^verbatim>\<open>sscanf\<close>: skip white space, then take the longest run of at
  most \<open>w\<close> characters that are not white space. It fails when the input ends before a
  character of the token is found. The result is the token and the unread input.
\<close>

definition scan_s :: "nat \<Rightarrow> string \<Rightarrow> (string \<times> string) option" where
  "scan_s w s =
     (let s1 = dropWhile isspace s;
          tok = takeWhile (\<lambda>c. \<not> isspace c) (take w s1)
      in if tok = [] then None else Some (tok, drop (length tok) s1))"

text \<open>
  The conversion \<^verbatim>\<open>%X\<close> (\<open>w = None\<close>) or \<^verbatim>\<open>%0wX\<close> (\<open>w = Some n\<close>; in a \<^verbatim>\<open>scanf\<close> format
  \<^verbatim>\<open>02\<close> is the field width 2) into an \<^verbatim>\<open>unsigned int\<close>, after ISO C 7.21.6.2: skip
  white space; the input item is the longest sequence of at most \<open>w\<close> characters that is
  a prefix of an optionally signed hexadecimal integer with an optional \<^verbatim>\<open>0x\<close> prefix;
  the conversion fails when the item holds no digit. An item that is only the prefix (an
  \<^verbatim>\<open>0x\<close> with no digit after it) is the exception: the GNU C library converts the 0 of the
  prefix and takes both characters, where the standard asks for a failure, and the model
  follows the library. A minus sign negates the value in the unsigned type. The result is
  the value and the unread input. The program converts at most four characters at a time,
  so the value of the digits always fits.
\<close>

definition scan_X :: "nat option \<Rightarrow> string \<Rightarrow> (32 word \<times> string) option" where
  "scan_X w s =
     (let s1 = dropWhile isspace s;
          fld = (case w of None \<Rightarrow> s1 | Some n \<Rightarrow> take n s1);
          neg = (take 1 fld = ''-'');
          sgn = (if take 1 fld = ''-'' \<or> take 1 fld = ''+'' then 1 else 0);
          body = drop sgn fld;
          pre = (if take 2 body = ''0x'' \<or> take 2 body = ''0X'' then 2 else 0);
          digits = takeWhile isxdigit (drop pre body);
          v = (of_nat (hex_value digits) :: 32 word)
      in if digits = [] then (if pre = 2 then Some (0, drop (sgn + 2) s1) else None)
         else Some (if neg then - v else v, drop (sgn + pre + length digits) s1))"

text \<open>
  \<^verbatim>\<open>strncmp(a, b, n) == 0\<close> on C strings: the first \<open>n\<close> characters agree, or both strings
  end together before that.
\<close>

fun strncmp_eq :: "string \<Rightarrow> string \<Rightarrow> nat \<Rightarrow> bool" where
  "strncmp_eq a b 0 = True"
| "strncmp_eq [] [] (Suc n) = True"
| "strncmp_eq (x # a) (y # b) (Suc n) = (x = y \<and> strncmp_eq a b n)"
| "strncmp_eq a b (Suc n) = False"

subsection \<open>record\_handler.h: the record structure\<close>

text \<open>
  The field \<^verbatim>\<open>data\<close> is a pointer to a block of bytes; the model keeps the memory behind
  it as a function from the offset to the byte stored there.
\<close>

record IntelHexRecord_t =
  byte_count :: "32 word"
  address :: "32 word"
  record_type :: "32 word"
  data :: "nat \<Rightarrow> 8 word"
  checksum :: "32 word"

text \<open>
  \<^verbatim>\<open>IntelHexRecord_t record;\<close> is declared without an initialiser and the block that
  \<^verbatim>\<open>malloc\<close> returns is not cleared: their contents are indeterminate. Each call takes
  them as a parameter, so that what a call reads from them is visible in its result.
\<close>

record indeterminate =
  local_record :: IntelHexRecord_t
  malloc_block :: "nat \<Rightarrow> 8 word"

text \<open>
  \<^verbatim>\<open>sscanf(p, "%02X", &(record.data[i]))\<close> stores an \<^verbatim>\<open>unsigned int\<close> through a pointer
  to a byte: four bytes are written, the low one at offset \<open>i\<close>, so the store for the last
  byte of a record ends three bytes past the bytes that were asked for.
\<close>

definition store_uint :: "(nat \<Rightarrow> 8 word) \<Rightarrow> nat \<Rightarrow> 32 word \<Rightarrow> (nat \<Rightarrow> 8 word)" where
  "store_uint m i v =
     m(i := ucast v, i + 1 := ucast (drop_bit 8 v),
       i + 2 := ucast (drop_bit 16 v), i + 3 := ucast (drop_bit 24 v))"

subsection \<open>record\_handler.c: checkRecord\<close>

text \<open>
  \<^verbatim>\<open>sscanf(line, ":%2s%4s%2s", byte_count_str, address_str, record_type_str)\<close>:
  \<open>Some\<close> of the three tokens when the call returns 3, \<open>None\<close> otherwise.
\<close>

definition sscanf_header_strings :: "string \<Rightarrow> (string \<times> string \<times> string) option" where
  "sscanf_header_strings line =
     (case line of
        [] \<Rightarrow> None
      | c # r \<Rightarrow>
          if c \<noteq> CHR '':'' then None
          else (case scan_s 2 r of
                  None \<Rightarrow> None
                | Some (byte_count_str, r1) \<Rightarrow>
                    (case scan_s 4 r1 of
                       None \<Rightarrow> None
                     | Some (address_str, r2) \<Rightarrow>
                         (case scan_s 2 r2 of
                            None \<Rightarrow> None
                          | Some (record_type_str, r3) \<Rightarrow>
                              Some (byte_count_str, address_str, record_type_str)))))"

text \<open>
  The three \<^verbatim>\<open>sscanf(..._str, "%X", &record....)\<close> calls. Their return values are not
  checked: a field whose token does not convert keeps its indeterminate content.
\<close>

definition header_fields ::
  "IntelHexRecord_t \<Rightarrow> string \<Rightarrow> string \<Rightarrow> string \<Rightarrow> IntelHexRecord_t" where
  "header_fields record byte_count_str address_str record_type_str =
     (let r1 = (case scan_X None byte_count_str of
                  Some (v, rest) \<Rightarrow> record\<lparr>byte_count := v\<rparr> | None \<Rightarrow> record);
          r2 = (case scan_X None address_str of
                  Some (v, rest) \<Rightarrow> r1\<lparr>address := v\<rparr> | None \<Rightarrow> r1)
      in (case scan_X None record_type_str of
            Some (v, rest) \<Rightarrow> r2\<lparr>record_type := v\<rparr> | None \<Rightarrow> r2))"

text \<open>
  \<^verbatim>\<open>data_byte = (strlen(line) - 11) / 2;\<close> is computed in \<^verbatim>\<open>size_t\<close> and converted to
  \<^verbatim>\<open>int32_t\<close>; the comparison with the \<^verbatim>\<open>uint32_t\<close> byte count is done on 32 bits.
\<close>

definition data_byte :: "string \<Rightarrow> 32 word" where
  "data_byte line = ucast (((of_nat (length line) :: 64 word) - 11) div 2)"

text \<open>The loop \<^verbatim>\<open>for (i = 0; i < record.byte_count; i++) sscanf(line + 9 + (i * 2), ...)\<close>.\<close>

definition parse_data :: "string \<Rightarrow> nat \<Rightarrow> (nat \<Rightarrow> 8 word) \<Rightarrow> (nat \<Rightarrow> 8 word)" where
  "parse_data line n m =
     foldl (\<lambda>m i. case scan_X (Some 2) (drop (9 + i * 2) line) of
                     Some (v, rest) \<Rightarrow> store_uint m i v
                   | None \<Rightarrow> m) m [0..<n]"

text \<open>
  \<^verbatim>\<open>malloc\<close>, as the GNU C library on a 64-bit platform provides it: the blocks are 16
  bytes apart and no shorter than 32 bytes, 8 of which hold the size of the block. A
  request for \<open>n\<close> bytes so gives at least 24 bytes, and the bytes from
  \<open>malloc_usable_size n\<close> on are the size field of the block that follows. The formula
  holds for the requests that the program makes for a line (\<^verbatim>\<open>line\<close> has 100 characters).
\<close>

definition malloc_usable_size :: "nat \<Rightarrow> nat" where
  "malloc_usable_size n = max 24 ((n + 23) div 16 * 16 - 8)"

text \<open>
  The loop above on a block that was asked for with \<open>n\<close> bytes: some store of its four
  bytes ends behind the bytes of the block. That happens for a converting last field when
  \<open>n\<close> is 22 to 24, 38 to 40, and so on.
\<close>

definition block_overrun :: "string \<Rightarrow> nat \<Rightarrow> bool" where
  "block_overrun line n =
     list_ex (\<lambda>i. malloc_usable_size n < i + 4
                  \<and> scan_X (Some 2) (drop (9 + i * 2) line) \<noteq> None) [0..<n]"

text \<open>
  \<^verbatim>\<open>sscanf(line + strlen(line) - 3, "%02X", &checksum_record)\<close>, with \<^verbatim>\<open>checksum_record\<close>
  initialised to 0. Meaningful for lines of three characters or more.
\<close>

definition checksum_field :: "string \<Rightarrow> 32 word" where
  "checksum_field line =
     (case scan_X (Some 2) (drop (length line - 3) line) of
        Some (v, rest) \<Rightarrow> v | None \<Rightarrow> 0)"

text \<open>The sum over the fields and its two's complement, as the code computes them.\<close>

definition calculated_checksum :: "IntelHexRecord_t \<Rightarrow> 32 word" where
  "calculated_checksum record =
     (let c0 = byte_count record + drop_bit 8 (address record)
               + (address record AND 0xFF) + record_type record;
          c1 = foldl (\<lambda>c i. c + ucast (data record i)) c0 [0..<unat (byte_count record)]
      in (NOT c1 + 1) AND 0xFF)"

text \<open>
  \<^verbatim>\<open>record.data = malloc(...)\<close> followed by the loop that fills the block. The code does
  not test the pointer; the allocation is taken to succeed.
\<close>

definition read_data :: "indeterminate \<Rightarrow> string \<Rightarrow> IntelHexRecord_t \<Rightarrow> IntelHexRecord_t" where
  "read_data ind line record =
     record\<lparr>data := parse_data line (unat (byte_count record)) (malloc_block ind)\<rparr>"

text \<open>
  The function itself. When the byte counts agree on a line shorter than 11 characters
  (possible only with a wrapped-around count), the loops and the checksum scan read
  outside the line, and when a store of the data loop ends behind the block, the size
  field of the next block is overwritten: \<open>Undefined\<close> in both cases. The assignment
  \<^verbatim>\<open>record.checksum = checksum_record\<close> writes a local that is never read again and is
  left out.
\<close>

definition checkRecord :: "indeterminate \<Rightarrow> string \<Rightarrow> 32 word outcome" where
  "checkRecord ind line =
     (if take 1 line \<noteq> '':'' then Returns 1
      else (case sscanf_header_strings line of
              None \<Rightarrow> Returns 2
            | Some (byte_count_str, address_str, record_type_str) \<Rightarrow>
                if record_type_str \<noteq> ''00'' \<and> record_type_str \<noteq> ''01''
                   \<and> record_type_str \<noteq> ''02'' \<and> record_type_str \<noteq> ''04''
                   \<and> record_type_str \<noteq> ''05''
                then Returns 3
                else
                  (let record = header_fields (local_record ind)
                                  byte_count_str address_str record_type_str
                   in if data_byte line \<noteq> byte_count record then Returns 4
                      else if length line < 11
                              \<or> block_overrun line (unat (byte_count record))
                           then Undefined
                      else if calculated_checksum (read_data ind line record)
                              \<noteq> checksum_field line
                           then Returns 5 else Returns 0)))"

subsection \<open>record\_handler.c: displayRecordInfo\<close>

text \<open>
  \<^verbatim>\<open>sscanf(line, ":%02X%04X%02X", &byte_count, &address, &record_type)\<close>: the scan stops
  at the first directive that fails, and the fields after it keep their contents.
\<close>

definition sscanf_header_fields :: "string \<Rightarrow> IntelHexRecord_t \<Rightarrow> IntelHexRecord_t" where
  "sscanf_header_fields line record =
     (case line of
        [] \<Rightarrow> record
      | c # r \<Rightarrow>
          if c \<noteq> CHR '':'' then record
          else (case scan_X (Some 2) r of
                  None \<Rightarrow> record
                | Some (v1, r1) \<Rightarrow>
                    (case scan_X (Some 4) r1 of
                       None \<Rightarrow> record\<lparr>byte_count := v1\<rparr>
                     | Some (v2, r2) \<Rightarrow>
                         (case scan_X (Some 2) r2 of
                            None \<Rightarrow> record\<lparr>byte_count := v1, address := v2\<rparr>
                          | Some (v3, r3) \<Rightarrow>
                              record\<lparr>byte_count := v1, address := v2, record_type := v3\<rparr>))))"

text \<open>
  The record as \<^verbatim>\<open>displayRecordInfo\<close> holds it when it looks at the record type: header
  fields, then the checksum from the last three characters, then the data bytes. The block
  is allocated from \<^verbatim>\<open>record.byte_count\<close> before that field is assigned; the model takes the
  block to be large enough for the bytes the loop stores.
\<close>

definition display_record :: "indeterminate \<Rightarrow> string \<Rightarrow> IntelHexRecord_t" where
  "display_record ind line =
     (let r0 = (local_record ind)\<lparr>data := malloc_block ind\<rparr>;
          r1 = sscanf_header_fields line r0;
          r2 = (case scan_X (Some 2) (drop (length line - 3) line) of
                  Some (v, rest) \<Rightarrow> r1\<lparr>checksum := v\<rparr> | None \<Rightarrow> r1)
      in r2\<lparr>data := parse_data line (unat (byte_count r2)) (data r2)\<rparr>)"

text \<open>What one call prints: the kind of record, its fields, and for the two address
  records the base address and the absolute address.\<close>

datatype printed =
    Data_Record IntelHexRecord_t
  | Extended_Segment_Address_Record IntelHexRecord_t "32 word" "32 word"
  | Extended_Linear_Address_Record IntelHexRecord_t "32 word" "32 word"
  | End_Of_File_Record

text \<open>
  \<^verbatim>\<open>static int32_t base_address = 0;\<close> lives across the calls: the function takes its
  current value and returns the new one beside what it prints. The record number is only
  printed and is left out. \<open>Undefined\<close>: the checksum scan starts before the line, or a
  data scan starts past its terminator. The products are computed on 32 bits.
\<close>

definition base_address_init :: "32 word" where
  "base_address_init = 0"

definition displayRecordInfo ::
  "indeterminate \<Rightarrow> 32 word \<Rightarrow> string \<Rightarrow> (printed \<times> 32 word) outcome" where
  "displayRecordInfo ind base_address line =
     (let record = display_record ind line
      in if length line < 3 then Undefined
         else if byte_count record \<noteq> 0
                 \<and> length line < 9 + (unat (byte_count record) - 1) * 2 then Undefined
         else if record_type record = 0x00 then
           Returns (Data_Record record, address record)
         else if record_type record = 0x02 then
           Returns (Extended_Segment_Address_Record record base_address
                      (base_address + ucast (data record 0) * 0x1000
                                    + ucast (data record 1) * 0x10),
                    base_address)
         else if record_type record = 0x04 then
           Returns (Extended_Linear_Address_Record record base_address
                      (base_address + ucast (data record 0) * 0x1000000
                                    + ucast (data record 1) * 0x10000),
                    base_address)
         else Returns (End_Of_File_Record, base_address))"

subsection \<open>intel\_hex\_file\_analyzer: the three scans\<close>

record Error_t =
  error_code :: "32 word"
  error_line :: "32 word"

text \<open>
  \<^verbatim>\<open>analyzeIntelHexFile\<close>. The loop test calls \<^verbatim>\<open>fgets\<close> before it looks at the flag, so
  the line after a faulty one is read from the file but not checked. \<open>env n\<close> gives the
  indeterminate contents that the call on line \<open>n\<close> finds. The line counter is an
  \<^verbatim>\<open>int32_t\<close> that only counts up from 1; it is a natural number here, stored into the
  \<^verbatim>\<open>uint32_t\<close> field by conversion.
\<close>

fun analyze_loop ::
  "(nat \<Rightarrow> indeterminate) \<Rightarrow> Error_t \<Rightarrow> bool \<Rightarrow> nat \<Rightarrow> string list \<Rightarrow> Error_t outcome" where
  "analyze_loop env err continue_process line_of_file [] = Returns err"
| "analyze_loop env err continue_process line_of_file (line # rest) =
     (if \<not> continue_process then Returns err
      else (case checkRecord (env line_of_file) line of
              Undefined \<Rightarrow> Undefined
            | Returns code \<Rightarrow>
                if code \<noteq> 0
                then analyze_loop env (err\<lparr>error_code := code, error_line := of_nat line_of_file\<rparr>)
                       False line_of_file rest
                else analyze_loop env (err\<lparr>error_code := code\<rparr>)
                       True (line_of_file + 1) rest))"

text \<open>The return value is \<^verbatim>\<open>error->error_code\<close>; the structure is returned beside it.\<close>

definition analyzeIntelHexFile ::
  "(nat \<Rightarrow> indeterminate) \<Rightarrow> Error_t \<Rightarrow> string list \<Rightarrow> (32 word \<times> Error_t) outcome" where
  "analyzeIntelHexFile env err lines =
     (case analyze_loop env err True 1 lines of
        Undefined \<Rightarrow> Undefined
      | Returns e \<Rightarrow> Returns (error_code e, e))"

text \<open>
  \<^verbatim>\<open>checkEOF\<close>. \<^verbatim>\<open>found_EOF\<close> is an \<^verbatim>\<open>int8_t\<close>: \<^verbatim>\<open>found_EOF += 1\<close> converts the sum back
  to eight bits. The loop returns the last line, the last End-Of-File line, the counter
  and the error structure.
\<close>

fun checkEOF_loop ::
  "string list \<Rightarrow> string \<Rightarrow> string \<Rightarrow> 8 word \<Rightarrow> nat \<Rightarrow> Error_t
     \<Rightarrow> string \<times> string \<times> 8 word \<times> Error_t" where
  "checkEOF_loop [] last_line EOF_line found_EOF line_of_file err =
     (last_line, EOF_line, found_EOF, err)"
| "checkEOF_loop (line # rest) last_line EOF_line found_EOF line_of_file err =
     (if strncmp_eq line '':00000001FF'' 11
      then checkEOF_loop rest line line (found_EOF + 1) (line_of_file + 1)
             (if found_EOF = 0 then err\<lparr>error_line := of_nat line_of_file\<rparr> else err)
      else checkEOF_loop rest line EOF_line found_EOF (line_of_file + 1) err)"

text \<open>
  The two buffers \<^verbatim>\<open>last_line\<close> and \<^verbatim>\<open>EOF_line\<close> are not initialised; their first contents
  are parameters.
\<close>

definition checkEOF ::
  "string \<Rightarrow> string \<Rightarrow> Error_t \<Rightarrow> string list \<Rightarrow> 32 word \<times> Error_t" where
  "checkEOF last_line0 EOF_line0 err lines =
     (case checkEOF_loop lines last_line0 EOF_line0 0 1 err of
        (last_line, EOF_line, found_EOF, e) \<Rightarrow>
          (let code = (if found_EOF = 0 then 1
                       else if found_EOF = 1
                            then (if last_line \<noteq> EOF_line then 2 else 0)
                            else 3)
           in (code, e\<lparr>error_code := code\<rparr>)))"

text \<open>\<^verbatim>\<open>printIntelHexFile\<close>: the static base address is threaded through the calls.\<close>

fun print_loop ::
  "(nat \<Rightarrow> indeterminate) \<Rightarrow> 32 word \<Rightarrow> nat \<Rightarrow> string list
     \<Rightarrow> (printed list \<times> 32 word) outcome" where
  "print_loop env base_address line_of_file [] = Returns ([], base_address)"
| "print_loop env base_address line_of_file (line # rest) =
     (case displayRecordInfo (env line_of_file) base_address line of
        Undefined \<Rightarrow> Undefined
      | Returns (p, base') \<Rightarrow>
          (case print_loop env base' (line_of_file + 1) rest of
             Undefined \<Rightarrow> Undefined
           | Returns (ps, b) \<Rightarrow> Returns (p # ps, b)))"

definition printIntelHexFile ::
  "(nat \<Rightarrow> indeterminate) \<Rightarrow> 32 word \<Rightarrow> string list \<Rightarrow> (printed list \<times> 32 word) outcome" where
  "printIntelHexFile env base_address lines = print_loop env base_address 1 lines"

subsection \<open>The checks of checkRecord, one by one\<close>

text \<open>
  The five conditions that \<^verbatim>\<open>checkRecord\<close> tests, each as a predicate of the line alone
  (and of the indeterminate contents, where the code reads them), for stating the order
  in which the function reports them.
\<close>

definition start_code_present :: "string \<Rightarrow> bool" where
  "start_code_present line = (take 1 line = '':'')"

definition fields_scanned :: "string \<Rightarrow> bool" where
  "fields_scanned line = (sscanf_header_strings line \<noteq> None)"

definition type_valid :: "string \<Rightarrow> bool" where
  "type_valid line =
     (case sscanf_header_strings line of
        None \<Rightarrow> False
      | Some (byte_count_str, address_str, record_type_str) \<Rightarrow>
          record_type_str = ''00'' \<or> record_type_str = ''01'' \<or> record_type_str = ''02''
          \<or> record_type_str = ''04'' \<or> record_type_str = ''05'')"

definition count_matches :: "indeterminate \<Rightarrow> string \<Rightarrow> bool" where
  "count_matches ind line =
     (case sscanf_header_strings line of
        None \<Rightarrow> False
      | Some (byte_count_str, address_str, record_type_str) \<Rightarrow>
          data_byte line
          = byte_count (header_fields (local_record ind)
                          byte_count_str address_str record_type_str))"

definition checksum_matches :: "indeterminate \<Rightarrow> string \<Rightarrow> bool" where
  "checksum_matches ind line =
     (case sscanf_header_strings line of
        None \<Rightarrow> False
      | Some (byte_count_str, address_str, record_type_str) \<Rightarrow>
          calculated_checksum
            (read_data ind line
               (header_fields (local_record ind) byte_count_str address_str record_type_str))
          = checksum_field line)"

text \<open>Between the last two of them: a store of the data loop ends behind the block.\<close>

definition data_overrun :: "indeterminate \<Rightarrow> string \<Rightarrow> bool" where
  "data_overrun ind line =
     (case sscanf_header_strings line of
        None \<Rightarrow> False
      | Some (byte_count_str, address_str, record_type_str) \<Rightarrow>
          block_overrun line
            (unat (byte_count (header_fields (local_record ind)
                                 byte_count_str address_str record_type_str))))"

subsection \<open>Concrete contents for evaluating the functions\<close>

text \<open>
  Two possible contents of the uninitialised memory: all zero, and a record slot that
  still holds the byte count 3 of an earlier record.
\<close>

definition zero_record :: IntelHexRecord_t where
  "zero_record =
     \<lparr>byte_count = 0, address = 0, record_type = 0, data = (\<lambda>i. 0), checksum = 0\<rparr>"

definition zero_indeterminate :: indeterminate where
  "zero_indeterminate = \<lparr>local_record = zero_record, malloc_block = (\<lambda>i. 0)\<rparr>"

definition stale_indeterminate :: indeterminate where
  "stale_indeterminate =
     \<lparr>local_record = zero_record\<lparr>byte_count := 3\<rparr>, malloc_block = (\<lambda>i. 0)\<rparr>"

subsection \<open>Reading the results of the display scan\<close>

text \<open>The absolute memory address that a call prints, when it prints one.\<close>

definition printed_address :: "printed \<Rightarrow> 32 word option" where
  "printed_address p =
     (case p of
        Data_Record r \<Rightarrow> None
      | Extended_Segment_Address_Record r b a \<Rightarrow> Some a
      | Extended_Linear_Address_Record r b a \<Rightarrow> Some a
      | End_Of_File_Record \<Rightarrow> None)"

text \<open>
  The records of a file as the display scan sees them, line \<open>n\<close> with the indeterminate
  contents \<open>env n\<close>, lines counted from \<open>first\<close>.
\<close>

definition scanned_records ::
  "(nat \<Rightarrow> indeterminate) \<Rightarrow> nat \<Rightarrow> string list \<Rightarrow> IntelHexRecord_t list" where
  "scanned_records env first lines =
     map (\<lambda>(n, line). display_record (env n) line) (zip [first..<first + length lines] lines)"

subsection \<open>The record format in the words of the specification\<close>

text \<open>
  The specification describes a record as a colon, a byte count of two hexadecimal digits,
  an address of four, a record type of two, two digits for each data byte and a checksum
  of two digits, which are the last two characters of the record; a line holds a record
  and is ended by a newline character, or by the end of the file. The definitions below
  read these fields off the text of the line. They follow the specification and not the
  code; the lemmas compare what the code computes with them.
\<close>

definition field_value :: "string \<Rightarrow> nat \<Rightarrow> nat \<Rightarrow> nat" where
  "field_value line k w = hex_value (take w (drop k line))"

definition record_text :: "string \<Rightarrow> string" where
  "record_text line = takeWhile (\<lambda>c. c \<noteq> CHR 0x0A) line"

definition declared_byte_count :: "string \<Rightarrow> nat" where
  "declared_byte_count line = field_value line 1 2"

definition trailing_checksum :: "string \<Rightarrow> nat" where
  "trailing_checksum line =
     field_value (record_text line) (length (record_text line) - 2) 2"

definition field_sum :: "string \<Rightarrow> nat" where
  "field_sum line =
     declared_byte_count line + field_value line 3 2 + field_value line 5 2
     + field_value line 7 2
     + (\<Sum>i<declared_byte_count line. field_value line (9 + 2 * i) 2)"

section \<open>Lemmas about the library functions\<close>

subsection \<open>Tokens\<close>

lemma scan_s_token:
  assumes "length tok = w" and "0 < w" and "\<forall>c\<in>set tok. \<not> isspace c"
  shows "scan_s w (tok @ rest) = Some (tok, rest)"
proof -
  from assms obtain c cs where tok: "tok = c # cs" by (cases tok) auto
  with assms have "\<not> isspace c" by simp
  then have 1: "dropWhile isspace (tok @ rest) = tok @ rest" by (simp add: tok)
  have 2: "takeWhile (\<lambda>c. \<not> isspace c) tok = tok"
    using assms(3) by (simp add: takeWhile_eq_all_conv)
  have 3: "take w (tok @ rest) = tok" using assms(1) by simp
  show ?thesis
    unfolding scan_s_def Let_def 1 3 2 by (simp add: tok)
qed

lemma filter_dropWhile_isspace:
  "filter (\<lambda>c. \<not> isspace c) (dropWhile isspace s) = filter (\<lambda>c. \<not> isspace c) s"
  by (induction s) simp_all

lemma length_filter_drop_le:
  "length (filter P (drop k xs)) \<le> length (filter P xs)"
proof -
  have "filter P xs = filter P (take k xs) @ filter P (drop k xs)"
    by (metis append_take_drop_id filter_append)
  then show ?thesis by (metis le_add2 length_append)
qed

text \<open>Every token uses up at least one character that is not white space.\<close>

lemma scan_s_consumes:
  assumes "scan_s w s = Some (tok, rest)"
  shows "length (filter (\<lambda>c. \<not> isspace c) rest) < length (filter (\<lambda>c. \<not> isspace c) s)"
proof -
  let ?s1 = "dropWhile isspace s"
  let ?tok = "takeWhile (\<lambda>c. \<not> isspace c) (take w ?s1)"
  from assms have ne: "?tok \<noteq> []" and rest: "rest = drop (length ?tok) ?s1"
    by (auto simp add: scan_s_def Let_def split: if_splits)
  have "take w ?s1 \<noteq> []"
  proof
    assume "take w ?s1 = []"
    then have "?tok = []" by (simp only: takeWhile.simps)
    with ne show False by simp
  qed
  then obtain c s' where s1: "?s1 = c # s'"
    by (cases ?s1) auto
  have c: "\<not> isspace c"
    using ne unfolding s1 by (cases w) (auto split: if_splits)
  from ne obtain k where k: "length ?tok = Suc k"
    by (cases ?tok) auto
  have "rest = drop (Suc k) ?s1" using rest k by simp
  then have "rest = drop k s'" unfolding s1 by simp
  then have "length (filter (\<lambda>c. \<not> isspace c) rest) \<le> length (filter (\<lambda>c. \<not> isspace c) s')"
    by (simp add: length_filter_drop_le)
  also have "\<dots> < length (filter (\<lambda>c. \<not> isspace c) ?s1)"
    unfolding s1 using c by simp
  finally show ?thesis by (simp only: filter_dropWhile_isspace)
qed

lemma header_strings_eight:
  assumes "length h = 8" and "\<forall>c\<in>set h. \<not> isspace c"
  shows "sscanf_header_strings (CHR '':'' # h @ rest)
         = Some (take 2 h, take 4 (drop 2 h), drop 6 h)"
proof -
  have split: "h @ rest = take 2 h @ (take 4 (drop 2 h) @ (drop 6 h @ rest))"
  proof -
    have "drop 4 (drop 2 h) = drop 6 h" by simp
    then have "drop 2 h = take 4 (drop 2 h) @ drop 6 h"
      by (metis append_take_drop_id)
    then have "h = take 2 h @ (take 4 (drop 2 h) @ drop 6 h)"
      by (metis append_take_drop_id)
    then have "h @ rest = (take 2 h @ (take 4 (drop 2 h) @ drop 6 h)) @ rest"
      by simp
    then show ?thesis by (simp only: append_assoc)
  qed
  have ns: "\<forall>c\<in>set (take 2 h). \<not> isspace c" "\<forall>c\<in>set (take 4 (drop 2 h)). \<not> isspace c"
    "\<forall>c\<in>set (drop 6 h). \<not> isspace c"
    using assms(2) by (auto dest: in_set_takeD in_set_dropD)
  have 1: "scan_s 2 (take 2 h @ (take 4 (drop 2 h) @ (drop 6 h @ rest)))
           = Some (take 2 h, take 4 (drop 2 h) @ (drop 6 h @ rest))"
    by (rule scan_s_token) (use assms ns in simp_all)
  have 2: "scan_s 4 (take 4 (drop 2 h) @ (drop 6 h @ rest))
           = Some (take 4 (drop 2 h), drop 6 h @ rest)"
    by (rule scan_s_token) (use assms ns in simp_all)
  have 3: "scan_s 2 (drop 6 h @ rest) = Some (drop 6 h, rest)"
    by (rule scan_s_token) (use assms ns in simp_all)
  show ?thesis
    unfolding sscanf_header_strings_def list.case split
    by (simp only: 1 2 3 option.case prod.case if_False simp_thms)
qed

lemma header_strings_few:
  assumes "length (filter (\<lambda>c. \<not> isspace c) r) < 3"
  shows "sscanf_header_strings (CHR '':'' # r) = None"
proof (rule ccontr)
  assume "sscanf_header_strings (CHR '':'' # r) \<noteq> None"
  then obtain b r1 a r2 t r3 where
    "scan_s 2 r = Some (b, r1)" "scan_s 4 r1 = Some (a, r2)" "scan_s 2 r2 = Some (t, r3)"
    by (auto simp add: sscanf_header_strings_def split: option.splits)
  then have "length (filter (\<lambda>c. \<not> isspace c) r1) < length (filter (\<lambda>c. \<not> isspace c) r)"
    "length (filter (\<lambda>c. \<not> isspace c) r2) < length (filter (\<lambda>c. \<not> isspace c) r1)"
    "length (filter (\<lambda>c. \<not> isspace c) r3) < length (filter (\<lambda>c. \<not> isspace c) r2)"
    by (auto dest: scan_s_consumes)
  with assms show False by linarith
qed

subsection \<open>String comparison\<close>

lemma strncmp_eq_take:
  "length b = n \<Longrightarrow> strncmp_eq a b n = (take n a = b)"
proof (induction n arbitrary: a b)
  case 0
  then show ?case by simp
next
  case (Suc n)
  then obtain y b' where b: "b = y # b'" and len: "length b' = n"
    by (cases b) auto
  show ?case
  proof (cases a)
    case Nil
    then show ?thesis by (simp add: b)
  next
    case (Cons x a')
    with Suc.IH [OF len, of a'] show ?thesis by (auto simp add: b)
  qed
qed

lemma is_EOF_line: "strncmp_eq line '':00000001FF'' 11 = (take 11 line = '':00000001FF'')"
  by (rule strncmp_eq_take) simp

section \<open>Machine arithmetic of checkRecord\<close>

subsection \<open>The checksum\<close>

lemma sum_loop:
  "foldl (\<lambda>c i. c + ucast (m i)) c0 [0..<n]
   = c0 + (of_nat (\<Sum>i<n. unat (m i :: 8 word)) :: 32 word)"
  by (induction n) (simp_all add: add.assoc)

lemma and_FF_take_bit: "(w :: 32 word) AND 0xFF = take_bit 8 w"
proof -
  have "(0xFF :: 32 word) = mask 8" by (simp add: mask_eq_exp_minus_1)
  then show ?thesis by (simp only: take_bit_eq_mask)
qed

lemma twos_complement_byte:
  "uint ((NOT c + 1) AND (0xFF :: 32 word)) = (- uint c) mod 256"
proof -
  have 1: "NOT c + 1 = - c" by (simp add: not_eq_complement)
  have 2: "uint (take_bit 8 (- c)) = uint (- c) mod 2 ^ 8"
    by (subst unsigned_take_bit_eq) (simp add: take_bit_eq_mod)
  have 3: "uint (- c) = (- uint c) mod 2 ^ 32"
    by (simp add: uint_word_ariths)
  have 4: "((- uint c) mod 2 ^ 32) mod 2 ^ 8 = (- uint c) mod 2 ^ 8"
    by (rule mod_mod_cancel) simp
  show ?thesis
    unfolding and_FF_take_bit 1 2 3 4 by simp
qed

lemma uint_of_nat_32: "uint (of_nat n :: 32 word) = int n mod 2 ^ 32"
  by (simp add: uint_nat unat_of_nat zmod_int)

lemma mod_32_256: "((a::int) mod 2 ^ 32) mod 256 = a mod 256"
proof -
  have "(a mod 2 ^ 32) mod 2 ^ 8 = a mod 2 ^ 8"
    by (rule mod_mod_cancel) simp
  then show ?thesis by simp
qed

lemma neg_mod_32_256: "(- ((a::int) mod 2 ^ 32)) mod 256 = (- a) mod 256"
proof -
  have "(- (a mod 2 ^ 32)) mod 256 = (- ((a mod 2 ^ 32) mod 256)) mod 256"
    by (simp only: mod_minus_eq)
  also have "\<dots> = (- (a mod 256)) mod 256"
    by (simp only: mod_32_256)
  also have "\<dots> = (- a) mod 256"
    by (simp only: mod_minus_eq)
  finally show ?thesis .
qed

lemma drop_bit_8_unat: "(drop_bit 8 (w :: 32 word)) = of_nat (unat w div 256)"
proof -
  have "unat (drop_bit 8 w) = unat w div 256"
    by (subst unat_drop_bit_eq) (simp add: drop_bit_eq_div)
  then have "of_nat (unat (drop_bit 8 w)) = (of_nat (unat w div 256) :: 32 word)"
    by simp
  then show ?thesis by simp
qed

lemma and_FF_unat: "((w :: 32 word) AND 0xFF) = of_nat (unat w mod 256)"
proof -
  have "unat (take_bit 8 w) = unat w mod 2 ^ 8"
    by (subst unsigned_take_bit_eq) (simp add: take_bit_eq_mod)
  then have "of_nat (unat (take_bit 8 w)) = (of_nat (unat w mod 256) :: 32 word)"
    by simp
  then show ?thesis unfolding and_FF_take_bit by simp
qed

text \<open>
  The value that \<^verbatim>\<open>checkRecord\<close> compares with the checksum field: minus the sum of the
  fields, modulo 256. The 32-bit additions may wrap around; modulo 256 that changes nothing.
\<close>

lemma calculated_checksum_value:
  "uint (calculated_checksum r) =
     (- int (unat (byte_count r) + unat (address r) div 256 + unat (address r) mod 256
             + unat (record_type r) + (\<Sum>i<unat (byte_count r). unat (data r i)))) mod 256"
proof -
  let ?N = "unat (byte_count r) + unat (address r) div 256 + unat (address r) mod 256
             + unat (record_type r) + (\<Sum>i<unat (byte_count r). unat (data r i))"
  have c1: "byte_count r + drop_bit 8 (address r) + (address r AND 0xFF) + record_type r
          + of_nat (\<Sum>i<unat (byte_count r). unat (data r i)) = (of_nat ?N :: 32 word)"
    by (simp only: drop_bit_8_unat and_FF_unat of_nat_add) simp
  have "uint (calculated_checksum r) = (- uint (of_nat ?N :: 32 word)) mod 256"
    unfolding calculated_checksum_def Let_def sum_loop c1 by (rule twos_complement_byte)
  also have "\<dots> = (- (int ?N mod 2 ^ 32)) mod 256"
    by (simp only: uint_of_nat_32)
  also have "\<dots> = (- int ?N) mod 256"
    by (rule neg_mod_32_256)
  finally show ?thesis .
qed

lemma calculated_checksum_cong:
  assumes "byte_count r = byte_count r'" and "address r = address r'"
    and "record_type r = record_type r'"
    and "\<forall>i<unat (byte_count r). data r i = data r' i"
  shows "calculated_checksum r = calculated_checksum r'"
proof -
  have "(\<Sum>i<unat (byte_count r). unat (data r i)) = (\<Sum>i<unat (byte_count r). unat (data r' i))"
    by (rule sum.cong) (use assms(4) in simp_all)
  then show ?thesis
    unfolding calculated_checksum_def Let_def sum_loop using assms(1-3) by simp
qed

subsection \<open>The observed number of data bytes\<close>

lemma uint_strlen_minus_11:
  "uint ((of_nat n :: 64 word) - 11) = (int n - 11) mod 2 ^ 64"
proof -
  have "uint (of_nat n :: 64 word) = int n mod 2 ^ 64"
    by (simp add: uint_nat unat_of_nat zmod_int)
  then have "uint ((of_nat n :: 64 word) - 11) = (int n mod 2 ^ 64 - 11) mod 2 ^ 64"
    by (simp add: uint_word_ariths)
  also have "\<dots> = (int n - 11) mod 2 ^ 64"
    by (rule mod_diff_left_eq)
  finally show ?thesis .
qed

lemma halve_truncate:
  "take_bit 32 (drop_bit 1 (take_bit 64 (k::int))) = take_bit 32 (drop_bit 1 k)"
  by (simp add: drop_bit_take_bit)

lemma halve_truncate_mod:
  "((k::int) mod 2 ^ 64 div 2) mod 2 ^ 32 = (k div 2) mod 2 ^ 32"
  using halve_truncate [of k, unfolded take_bit_eq_mod drop_bit_eq_div] by simp

text \<open>
  On 32 bits, the unsigned computation of the code agrees with the difference halved and
  rounded down, also where the line is shorter than 11 characters and the difference is
  negative.
\<close>

lemma data_byte_floor:
  "data_byte line = word_of_int ((int (length line) - 11) div 2)"
proof -
  let ?k = "int (length line) - 11"
  let ?w = "(of_nat (length line) :: 64 word) - 11"
  have "uint (data_byte line) = uint (?w div 2) mod 2 ^ 32"
    unfolding data_byte_def by (simp add: unsigned_ucast_eq take_bit_eq_mod)
  also have "uint (?w div 2) = uint ?w div 2"
    by (simp add: uint_div_distrib)
  also have "uint ?w = ?k mod 2 ^ 64"
    by (rule uint_strlen_minus_11)
  also have "(?k mod 2 ^ 64 div 2) mod 2 ^ 32 = (?k div 2) mod 2 ^ 32"
    by (rule halve_truncate_mod)
  also have "\<dots> = uint (word_of_int (?k div 2) :: 32 word)"
    by (simp add: uint_word_of_int)
  finally show ?thesis
    by (simp only: word_uint_eq_iff)
qed

text \<open>On a line shorter than 11 characters the observed number is one of the six largest
  32-bit values.\<close>

lemma data_byte_short:
  assumes "length line < 11"
  shows "4294967290 \<le> uint (data_byte line)"
proof -
  let ?k = "(int (length line) - 11) div 2"
  have lo: "- 6 \<le> ?k" and hi: "?k < 0"
    using assms by presburger+
  have "uint (data_byte line) = ?k mod 2 ^ 32"
    unfolding data_byte_floor by (simp add: uint_word_of_int)
  also have "\<dots> = (?k + 2 ^ 32) mod 2 ^ 32"
    by simp
  also have "\<dots> = ?k + 2 ^ 32"
    by (rule mod_pos_pos_trivial) (use lo hi in simp_all)
  finally show ?thesis using lo by simp
qed

subsection \<open>The data bytes\<close>

lemma store_uint_at: "store_uint m i v i = ucast v"
  by (simp add: store_uint_def)

lemma store_uint_below: "j < i \<Longrightarrow> store_uint m i v j = m j"
  by (simp add: store_uint_def)

lemma parse_data_0: "parse_data line 0 m = m"
  by (simp add: parse_data_def)

lemma parse_data_Suc:
  "parse_data line (Suc n) m =
     (case scan_X (Some 2) (drop (9 + n * 2) line) of
        Some (v, rest) \<Rightarrow> store_uint (parse_data line n m) n v
      | None \<Rightarrow> parse_data line n m)"
  unfolding parse_data_def by simp

text \<open>Where every data field converts, the bytes read do not depend on what the block held.\<close>

lemma parse_data_determined:
  assumes "\<forall>i<n. scan_X (Some 2) (drop (9 + i * 2) line) \<noteq> None"
    and "i < n"
  shows "parse_data line n m i = parse_data line n m' i"
  using assms
proof (induction n)
  case 0
  then show ?case by simp
next
  case (Suc n)
  from Suc.prems(1) have "scan_X (Some 2) (drop (9 + n * 2) line) \<noteq> None"
    by simp
  then obtain v rest where
    s: "scan_X (Some 2) (drop (9 + n * 2) line) = Some (v, rest)"
    by (cases "scan_X (Some 2) (drop (9 + n * 2) line)") auto
  show ?case
  proof (cases "i = n")
    case True
    then show ?thesis by (simp add: parse_data_Suc s store_uint_at)
  next
    case False
    with Suc.prems have lt: "i < n" by simp
    have "parse_data line n m i = parse_data line n m' i"
      by (rule Suc.IH) (use Suc.prems lt in simp_all)
    then show ?thesis by (simp add: parse_data_Suc s store_uint_below lt)
  qed
qed

subsection \<open>The block behind the data pointer\<close>

lemma block_overrun_0: "\<not> block_overrun line 0"
  by (simp add: block_overrun_def)

lemma block_fits:
  assumes "n + 3 \<le> malloc_usable_size n"
  shows "\<not> block_overrun line n"
  using assms by (auto simp add: block_overrun_def list_ex_iff)

text \<open>Up to 21 bytes, and for the usual 32 bytes, the stores stay inside the block.\<close>

lemma usable_small: "n \<le> 21 \<Longrightarrow> n + 3 \<le> malloc_usable_size n"
  by (simp add: malloc_usable_size_def)

lemma usable_32: "32 + 3 \<le> malloc_usable_size 32"
  by (simp add: malloc_usable_size_def)

section \<open>checkRecord\<close>

subsection \<open>The function after the scan of the header\<close>

lemma checkRecord_no_tokens:
  assumes "sscanf_header_strings line = None"
  shows "checkRecord ind line = (if take 1 line \<noteq> '':'' then Returns 1 else Returns 2)"
  unfolding checkRecord_def assms by (simp only: option.case)

lemma checkRecord_tokens:
  assumes "sscanf_header_strings line = Some (b, a, t)"
  shows "checkRecord ind line =
     (if take 1 line \<noteq> '':'' then Returns 1
      else if t \<noteq> ''00'' \<and> t \<noteq> ''01'' \<and> t \<noteq> ''02'' \<and> t \<noteq> ''04'' \<and> t \<noteq> ''05''
      then Returns 3
      else if data_byte line \<noteq> byte_count (header_fields (local_record ind) b a t)
      then Returns 4
      else if length line < 11
              \<or> block_overrun line (unat (byte_count (header_fields (local_record ind) b a t)))
      then Undefined
      else if calculated_checksum
                (read_data ind line (header_fields (local_record ind) b a t))
              \<noteq> checksum_field line
      then Returns 5 else Returns 0)"
  unfolding checkRecord_def assms by (simp only: option.case prod.case Let_def)

lemma check_chain:
  assumes "F"
  shows "(if \<not> A then r1
          else if \<not> t0 \<and> \<not> t1 \<and> \<not> t2 \<and> \<not> t4 \<and> \<not> t5 then r3
          else if \<not> C then r4 else if L then u else if \<not> K then r5 else r0)
       = (if \<not> A then r1 else if \<not> F then r2
          else if \<not> (t0 \<or> t1 \<or> t2 \<or> t4 \<or> t5) then r3
          else if \<not> C then r4 else if L then u else if \<not> K then r5 else r0)"
  using assms by simp

lemma chain_not_2:
  "(if A then Returns 1 else if B then Returns 3 else if C then Returns 4
    else if D then Undefined else if E then Returns 5 else Returns 0)
   \<noteq> Returns (2 :: 32 word)"
  by simp

lemma returns_2_iff:
  "(checkRecord ind line = Returns 2)
   = (take 1 line = '':'' \<and> sscanf_header_strings line = None)"
proof (cases "sscanf_header_strings line")
  case None
  then show ?thesis by (simp add: checkRecord_no_tokens)
next
  case (Some tok)
  obtain b a t where tok: "sscanf_header_strings line = Some (b, a, t)"
    using Some by (cases tok) auto
  show ?thesis
    unfolding checkRecord_tokens [OF tok] tok using chain_not_2 by simp
qed

lemma chain_defined:
  assumes "C \<or> \<not> L"
  shows "(if A then Returns 1 else if B then Returns 3 else if C then Returns 4
          else if L then Undefined else if E then Returns 5 else Returns 0)
         \<noteq> (Undefined :: 32 word outcome)"
  using assms by auto

text \<open>
  The function has a result on every line whose stores stay inside the block, unless the
  byte count it holds is one of the six largest 32-bit values: no token of two
  hexadecimal digits gives such a count.
\<close>

lemma checkRecord_defined:
  assumes "sscanf_header_strings line = Some (b, a, t)"
    and "uint (byte_count (header_fields (local_record ind) b a t)) < 4294967290"
    and "\<not> block_overrun line (unat (byte_count (header_fields (local_record ind) b a t)))"
  shows "checkRecord ind line \<noteq> Undefined"
proof -
  have "data_byte line \<noteq> byte_count (header_fields (local_record ind) b a t)
        \<or> \<not> (length line < 11
              \<or> block_overrun line
                   (unat (byte_count (header_fields (local_record ind) b a t))))"
  proof (cases "length line < 11")
    case True
    from data_byte_short [OF True] assms(2)
    have "uint (data_byte line)
          \<noteq> uint (byte_count (header_fields (local_record ind) b a t))"
      by linarith
    then show ?thesis by auto
  next
    case False
    with assms(3) show ?thesis by simp
  qed
  then show ?thesis
    unfolding checkRecord_tokens [OF assms(1)] by (rule chain_defined)
qed

lemma checkRecord_defined_no_tokens:
  assumes "sscanf_header_strings line = None"
  shows "checkRecord ind line \<noteq> Undefined"
  by (simp add: checkRecord_no_tokens [OF assms])

subsection \<open>Byte counts that a token can give\<close>

lemma hexval_less_16: "hexval c = Some d \<Longrightarrow> d < 16"
  by (auto simp add: hexval_def Let_def split: if_splits)

lemma hex_fold_bound:
  "foldl (\<lambda>v c. 16 * v + (case hexval c of Some d \<Rightarrow> d | None \<Rightarrow> 0)) v ds
   < (v + 1) * 16 ^ length ds"
proof (induction ds arbitrary: v)
  case Nil
  then show ?case by simp
next
  case (Cons c ds)
  let ?d = "case hexval c of Some d \<Rightarrow> d | None \<Rightarrow> 0"
  have d: "?d < 16"
    by (cases "hexval c") (simp_all add: hexval_less_16)
  have "foldl (\<lambda>v c. 16 * v + (case hexval c of Some d \<Rightarrow> d | None \<Rightarrow> 0)) (16 * v + ?d) ds
        < (16 * v + ?d + 1) * 16 ^ length ds"
    by (rule Cons.IH)
  also have "\<dots> \<le> (16 * v + 16) * 16 ^ length ds"
    using d by (intro mult_right_mono) simp_all
  also have "\<dots> = (v + 1) * 16 ^ length (c # ds)"
    by (simp add: algebra_simps)
  finally show ?case by simp
qed

lemma hex_value_bound: "hex_value ds < 16 ^ length ds"
  using hex_fold_bound [of 0 ds] by (simp add: hex_value_def)

text \<open>A token of at most two characters without a minus sign converts to a value below 256.\<close>

lemma hex_digits_short:
  assumes "length b \<le> 2"
  shows "hex_value (takeWhile isxdigit (drop k b)) < 256"
proof -
  let ?digits = "takeWhile isxdigit (drop k b)"
  have "length ?digits \<le> length (drop k b)" by (rule length_takeWhile_le)
  also have "\<dots> \<le> length b" by simp
  finally have len: "length ?digits \<le> 2" using assms by simp
  have "hex_value ?digits < 16 ^ length ?digits" by (rule hex_value_bound)
  also have "\<dots> \<le> 16 ^ 2" using len by (intro power_increasing) simp_all
  finally show ?thesis by simp
qed

lemma uint_small_32:
  assumes "n < 256"
  shows "uint (of_nat n :: 32 word) < 256"
proof -
  have "uint (of_nat n :: 32 word) = int n mod 2 ^ 32" by (simp only: uint_of_nat_32)
  with assms show ?thesis by simp
qed

lemma scan_X_byte:
  assumes "scan_X None b = Some (v, rest)" and "length b \<le> 2" and "take 1 b \<noteq> ''-''"
    and "\<forall>c\<in>set b. \<not> isspace c"
  shows "uint v < 256"
proof -
  have s1: "dropWhile isspace b = b"
    using assms(4) by (cases b) simp_all
  have d: "\<And>k. uint (of_nat (hex_value (takeWhile isxdigit (drop k b))) :: 32 word) < 256"
    by (rule uint_small_32 [OF hex_digits_short [OF assms(2)]])
  from d [of 0] have d0: "uint (of_nat (hex_value (takeWhile isxdigit b)) :: 32 word) < 256"
    by simp
  from assms(1,3) show ?thesis
    unfolding scan_X_def Let_def s1 using d d0 by (auto split: if_splits)
qed

text \<open>The tokens of the header hold no white space and are no longer than their widths.\<close>

lemma scan_s_shape:
  assumes "scan_s w s = Some (tok, rest)"
  shows "length tok \<le> w" and "\<forall>c\<in>set tok. \<not> isspace c"
proof -
  let ?s1 = "dropWhile isspace s"
  from assms have tok: "tok = takeWhile (\<lambda>c. \<not> isspace c) (take w ?s1)"
    by (auto simp add: scan_s_def Let_def split: if_splits)
  have "length tok \<le> length (take w ?s1)"
    unfolding tok by (rule length_takeWhile_le)
  then show "length tok \<le> w" by simp
  show "\<forall>c\<in>set tok. \<not> isspace c"
    unfolding tok by (auto dest: set_takeWhileD)
qed

lemma header_strings_first:
  assumes "sscanf_header_strings line = Some (b, a, t)"
  shows "length b \<le> 2" and "\<forall>c\<in>set b. \<not> isspace c"
proof -
  from assms obtain r r1 where "scan_s 2 r = Some (b, r1)"
    by (auto simp add: sscanf_header_strings_def split: list.splits if_splits option.splits)
  then show "length b \<le> 2" and "\<forall>c\<in>set b. \<not> isspace c"
    by (rule scan_s_shape)+
qed

lemma byte_count_converted:
  assumes "scan_X None b = Some (v, rest)"
  shows "byte_count (header_fields record b a t) = v"
  unfolding header_fields_def Let_def assms
  by (simp split: option.splits)

text \<open>
  So the function has a result on every line whose byte-count token converts and has no
  minus sign, when the stores for that many bytes stay inside the block.
\<close>

lemma checkRecord_defined_converted:
  assumes "sscanf_header_strings line = Some (b, a, t)"
    and "scan_X None b = Some (v, rest)" and "take 1 b \<noteq> ''-''"
    and "\<not> block_overrun line (unat v)"
  shows "checkRecord ind line \<noteq> Undefined"
proof -
  have "uint v < 256"
    using assms(2) header_strings_first(1) [OF assms(1)] assms(3)
      header_strings_first(2) [OF assms(1)]
    by (rule scan_X_byte)
  then have 1: "uint (byte_count (header_fields (local_record ind) b a t)) < 4294967290"
    unfolding byte_count_converted [OF assms(2)] by simp
  have 2: "\<not> block_overrun line (unat (byte_count (header_fields (local_record ind) b a t)))"
    unfolding byte_count_converted [OF assms(2)] by (rule assms(4))
  from assms(1) 1 2 show ?thesis by (rule checkRecord_defined)
qed

subsection \<open>Fields of hexadecimal digits\<close>

text \<open>
  What the conversions give on fields that consist of hexadecimal digits, as the
  specification requires of every field, and what the code holds after it read a line
  made of such fields and a newline character.
\<close>

lemma isxdigit_not_space: "isxdigit c \<Longrightarrow> \<not> isspace c"
  by (auto simp add: isxdigit_def hexval_def isspace_def Let_def)

lemma isxdigit_not_sign:
  "isxdigit c \<Longrightarrow> c \<noteq> CHR ''-'' \<and> c \<noteq> CHR ''+'' \<and> c \<noteq> CHR ''x'' \<and> c \<noteq> CHR ''X''"
  by (auto simp add: isxdigit_def hexval_def Let_def)

lemma isxdigit_not_newline: "isxdigit c \<Longrightarrow> c \<noteq> CHR 0x0A"
  by (auto simp add: isxdigit_def hexval_def Let_def)

lemma hex_digits_no_prefix:
  assumes "\<forall>c\<in>set tok. isxdigit c"
  shows "take 1 tok \<noteq> ''-''" and "take 1 tok \<noteq> ''+''"
    and "take 2 tok \<noteq> ''0x''" and "take 2 tok \<noteq> ''0X''"
proof -
  have sub: "\<And>k c. c \<in> set (take k tok) \<Longrightarrow> isxdigit c"
    using assms by (auto dest: in_set_takeD)
  show "take 1 tok \<noteq> ''-''"
  proof
    assume "take 1 tok = ''-''"
    then have "CHR ''-'' \<in> set (take 1 tok)" by simp
    then show False using sub isxdigit_not_sign by blast
  qed
  show "take 1 tok \<noteq> ''+''"
  proof
    assume "take 1 tok = ''+''"
    then have "CHR ''+'' \<in> set (take 1 tok)" by simp
    then show False using sub isxdigit_not_sign by blast
  qed
  show "take 2 tok \<noteq> ''0x''"
  proof
    assume "take 2 tok = ''0x''"
    then have "CHR ''x'' \<in> set (take 2 tok)" by simp
    then show False using sub isxdigit_not_sign by blast
  qed
  show "take 2 tok \<noteq> ''0X''"
  proof
    assume "take 2 tok = ''0X''"
    then have "CHR ''X'' \<in> set (take 2 tok)" by simp
    then show False using sub isxdigit_not_sign by blast
  qed
qed

lemma dropWhile_isspace_hex:
  assumes "\<forall>c\<in>set tok. isxdigit c" and "tok \<noteq> []"
  shows "dropWhile isspace (tok @ rest) = tok @ rest"
  using assms by (cases tok) (auto simp add: isxdigit_not_space)

lemma scan_X_hex_token:
  assumes "tok \<noteq> []" and "\<forall>c\<in>set tok. isxdigit c"
  shows "scan_X None tok = Some (of_nat (hex_value tok), [])"
proof -
  have 1: "dropWhile isspace tok = tok"
    using dropWhile_isspace_hex [OF assms(2) assms(1), of "[]"] by simp
  have 2: "takeWhile isxdigit tok = tok"
    using assms(2) by (simp add: takeWhile_eq_all_conv)
  note 3 = hex_digits_no_prefix [OF assms(2)]
  show ?thesis
    unfolding scan_X_def Let_def 1 option.case using 3 assms(1) by (simp add: 2)
qed

lemma scan_X_hex_pair:
  assumes "length p = 2" and "\<forall>c\<in>set p. isxdigit c"
  shows "scan_X (Some 2) (p @ rest) = Some (of_nat (hex_value p), rest)"
proof -
  from assms(1) have ne: "p \<noteq> []" by auto
  have 1: "dropWhile isspace (p @ rest) = p @ rest"
    by (rule dropWhile_isspace_hex [OF assms(2) ne])
  have 2: "take 2 (p @ rest) = p" using assms(1) by simp
  have 3: "takeWhile isxdigit p = p"
    using assms(2) by (simp add: takeWhile_eq_all_conv)
  note 4 = hex_digits_no_prefix [OF assms(2)]
  show ?thesis
    unfolding scan_X_def Let_def 1 option.case 2 using 4 ne assms(1) by (simp add: 3)
qed

lemma hex_fold_shift:
  "foldl (\<lambda>v c. 16 * v + (case hexval c of Some d \<Rightarrow> d | None \<Rightarrow> 0)) v ds
   = v * 16 ^ length ds
     + foldl (\<lambda>v c. 16 * v + (case hexval c of Some d \<Rightarrow> d | None \<Rightarrow> 0)) 0 ds"
proof (induction ds arbitrary: v)
  case Nil
  then show ?case by simp
next
  case (Cons c ds)
  let ?f = "\<lambda>v c. 16 * v + (case hexval c of Some d \<Rightarrow> d | None \<Rightarrow> (0::nat))"
  let ?d = "case hexval c of Some d \<Rightarrow> d | None \<Rightarrow> (0::nat)"
  have 1: "foldl ?f (16 * v + ?d) ds = (16 * v + ?d) * 16 ^ length ds + foldl ?f 0 ds"
    by (rule Cons.IH)
  have 2: "foldl ?f ?d ds = ?d * 16 ^ length ds + foldl ?f 0 ds"
    by (rule Cons.IH)
  have "foldl ?f v (c # ds) = foldl ?f (16 * v + ?d) ds" by simp
  also have "\<dots> = v * 16 ^ length (c # ds) + (?d * 16 ^ length ds + foldl ?f 0 ds)"
    unfolding 1 by (simp add: algebra_simps)
  also have "?d * 16 ^ length ds + foldl ?f 0 ds = foldl ?f 0 (c # ds)"
    unfolding 2 [symmetric] by simp
  finally show ?case .
qed

lemma hex_value_append:
  "hex_value (xs @ ys) = hex_value xs * 16 ^ length ys + hex_value ys"
  unfolding hex_value_def foldl_append by (rule hex_fold_shift)

lemma hex_value_byte: "length p = 2 \<Longrightarrow> hex_value p < 256"
  using hex_value_bound [of p] by simp

text \<open>An address of four digits: its high and its low byte are the two pairs of digits.\<close>

lemma hex_value_four:
  assumes "length a = 4"
  shows "hex_value a div 256 = hex_value (take 2 a)"
    and "hex_value a mod 256 = hex_value (drop 2 a)"
    and "hex_value a < 65536"
proof -
  have lo: "hex_value (drop 2 a) < 256"
    by (rule hex_value_byte) (use assms in simp)
  have "hex_value a = hex_value (take 2 a @ drop 2 a)" by simp
  also have "\<dots> = hex_value (take 2 a) * 16 ^ length (drop 2 a) + hex_value (drop 2 a)"
    by (rule hex_value_append)
  finally have eq: "hex_value a = hex_value (take 2 a) * 256 + hex_value (drop 2 a)"
    using assms by simp
  show "hex_value a div 256 = hex_value (take 2 a)"
    unfolding eq using lo by simp
  show "hex_value a mod 256 = hex_value (drop 2 a)"
    unfolding eq using lo by simp
  show "hex_value a < 65536"
    using hex_value_bound [of a] assms by simp
qed

lemma unat_of_nat_32_small: "k < 65536 \<Longrightarrow> unat (of_nat k :: 32 word) = k"
  by (simp add: unat_of_nat take_bit_nat_eq_self)

lemma unat_data_byte:
  assumes "k < 256"
  shows "unat (ucast (of_nat k :: 32 word) :: 8 word) = k"
proof -
  have "unat (ucast (of_nat k :: 32 word) :: 8 word) = unat (of_nat k :: 32 word) mod 2 ^ 8"
    by (simp only: unsigned_ucast_eq take_bit_eq_mod) simp
  also have "unat (of_nat k :: 32 word) = k"
    by (rule unat_of_nat_32_small) (use assms in simp)
  finally show ?thesis using assms by simp
qed

lemma parse_data_at:
  assumes "\<forall>i<n. scan_X (Some 2) (drop (9 + i * 2) line) = Some (v i, r i)"
    and "j < n"
  shows "parse_data line n m j = ucast (v j)"
  using assms
proof (induction n)
  case 0
  then show ?case by simp
next
  case (Suc n)
  from Suc.prems(1) have s: "scan_X (Some 2) (drop (9 + n * 2) line) = Some (v n, r n)"
    by simp
  show ?case
  proof (cases "j = n")
    case True
    then show ?thesis by (simp add: parse_data_Suc s store_uint_at)
  next
    case False
    with Suc.prems have lt: "j < n" by simp
    have "parse_data line n m j = ucast (v j)"
      by (rule Suc.IH) (use Suc.prems lt in simp_all)
    then show ?thesis by (simp add: parse_data_Suc s store_uint_below lt)
  qed
qed

lemma header_fields_hex:
  assumes "b \<noteq> []" and "\<forall>c\<in>set b. isxdigit c"
    and "a \<noteq> []" and "\<forall>c\<in>set a. isxdigit c"
    and "t \<noteq> []" and "\<forall>c\<in>set t. isxdigit c"
  shows "header_fields r b a t
         = r\<lparr>byte_count := of_nat (hex_value b), address := of_nat (hex_value a),
              record_type := of_nat (hex_value t)\<rparr>"
  unfolding header_fields_def Let_def
    scan_X_hex_token [OF assms(1,2)] scan_X_hex_token [OF assms(3,4)]
    scan_X_hex_token [OF assms(5,6)]
  by simp

lemma drop_9_Cons: "drop (9 + k) (x # xs) = drop (8 + k) xs"
proof -
  have "9 + k = Suc (8 + k)" by simp
  then show ?thesis by (simp only: drop_Suc_Cons)
qed

lemma record_text_terminated:
  assumes "\<forall>c\<in>set body. isxdigit c"
  shows "record_text (CHR '':'' # body @ ''\<newline>'') = CHR '':'' # body"
proof -
  have "takeWhile (\<lambda>c. c \<noteq> CHR 0x0A) (body @ CHR 0x0A # []) 
        = takeWhile (\<lambda>c. c \<noteq> CHR 0x0A) body"
    by (rule takeWhile_tail) simp
  also have "\<dots> = body"
    using assms by (simp add: takeWhile_eq_all_conv isxdigit_not_newline)
  finally show ?thesis by (simp add: record_text_def)
qed

lemma terminated_record_fields:
  assumes line: "line = CHR '':'' # body @ ''\<newline>''"
    and hex: "\<forall>c\<in>set body. isxdigit c"
    and len: "length body = 10 + 2 * declared_byte_count line"
  shows "sscanf_header_strings line
         = Some (take 2 body, take 4 (drop 2 body), take 2 (drop 6 body))"
    and "header_fields r (take 2 body) (take 4 (drop 2 body)) (take 2 (drop 6 body))
         = r\<lparr>byte_count := of_nat (declared_byte_count line),
              address := of_nat (hex_value (take 4 (drop 2 body))),
              record_type := of_nat (field_value line 7 2)\<rparr>"
    and "declared_byte_count line < 256"
    and "data_byte line = of_nat (declared_byte_count line)"
    and "\<forall>i<declared_byte_count line. scan_X (Some 2) (drop (9 + i * 2) line)
           = Some (of_nat (field_value line (9 + 2 * i) 2),
                   drop (10 + 2 * i) body @ ''\<newline>'')"
    and "checksum_field line = of_nat (trailing_checksum line)"
    and "trailing_checksum line < 256"
proof -
  define n where "n = declared_byte_count line"
  have lenb: "length body = 10 + 2 * n" using len by (simp add: n_def)
  have sub: "\<And>k j c. c \<in> set (take k (drop j body)) \<Longrightarrow> isxdigit c"
    using hex by (auto dest: in_set_takeD in_set_dropD)
  have n_eq: "n = hex_value (take 2 body)"
    unfolding n_def declared_byte_count_def field_value_def line using lenb by simp
  show nlt: "declared_byte_count line < 256"
    unfolding n_def [symmetric] n_eq by (rule hex_value_byte) (use lenb in simp)
  have t_eq: "field_value line 7 2 = hex_value (take 2 (drop 6 body))"
    unfolding field_value_def line using lenb by simp
  show tok: "sscanf_header_strings line
         = Some (take 2 body, take 4 (drop 2 body), take 2 (drop 6 body))"
  proof -
    have split: "line = CHR '':'' # take 8 body @ (drop 8 body @ ''\<newline>'')"
      unfolding line by simp
    have "sscanf_header_strings (CHR '':'' # take 8 body @ (drop 8 body @ ''\<newline>''))
          = Some (take 2 (take 8 body), take 4 (drop 2 (take 8 body)), drop 6 (take 8 body))"
      by (rule header_strings_eight)
         (use lenb hex in \<open>auto dest: in_set_takeD simp add: isxdigit_not_space\<close>)
    then show ?thesis
      unfolding split [symmetric] by (simp add: drop_take)
  qed
  show "header_fields r (take 2 body) (take 4 (drop 2 body)) (take 2 (drop 6 body))
         = r\<lparr>byte_count := of_nat (declared_byte_count line),
              address := of_nat (hex_value (take 4 (drop 2 body))),
              record_type := of_nat (field_value line 7 2)\<rparr>"
    unfolding n_def [symmetric] n_eq t_eq
    by (rule header_fields_hex) (use lenb sub [of _ _ 0] sub in auto)
  show "data_byte line = of_nat (declared_byte_count line)"
  proof -
    have "length line = 12 + 2 * n" unfolding line using lenb by simp
    then have "(int (length line) - 11) div 2 = int n" by simp
    then show ?thesis
      unfolding data_byte_floor n_def [symmetric] by simp
  qed
  show "\<forall>i<declared_byte_count line. scan_X (Some 2) (drop (9 + i * 2) line)
           = Some (of_nat (field_value line (9 + 2 * i) 2),
                   drop (10 + 2 * i) body @ ''\<newline>'')"
  proof (intro allI impI)
    fix i
    assume "i < declared_byte_count line"
    then have i: "i < n" by (simp add: n_def)
    let ?p = "take 2 (drop (8 + 2 * i) body)"
    have lp: "length ?p = 2" using lenb i by simp
    have d: "drop (9 + i * 2) line = ?p @ (drop (10 + 2 * i) body @ ''\<newline>'')"
    proof -
      have "9 + i * 2 = Suc (8 + 2 * i)" by simp
      then have "drop (9 + i * 2) line = drop (8 + 2 * i) (body @ ''\<newline>'')"
        unfolding line by (simp only: drop_Suc_Cons)
      also have "\<dots> = drop (8 + 2 * i) body @ ''\<newline>''"
        using lenb i by simp
      also have "drop (8 + 2 * i) body = ?p @ drop 2 (drop (8 + 2 * i) body)"
        by (simp only: append_take_drop_id)
      also have "drop 2 (drop (8 + 2 * i) body) = drop (10 + 2 * i) body"
        by simp
      finally show ?thesis by simp
    qed
    have f: "field_value line (9 + 2 * i) 2 = hex_value ?p"
      unfolding field_value_def
      using d lp by (simp add: mult.commute)
    show "scan_X (Some 2) (drop (9 + i * 2) line)
           = Some (of_nat (field_value line (9 + 2 * i) 2),
                   drop (10 + 2 * i) body @ ''\<newline>'')"
      unfolding d f by (rule scan_X_hex_pair [OF lp]) (use sub in blast)
  qed
  let ?c = "drop (8 + 2 * n) body"
  have lc: "length ?c = 2" using lenb by simp
  have tc: "trailing_checksum line = hex_value ?c"
    unfolding trailing_checksum_def field_value_def line record_text_terminated [OF hex]
    using lenb by (simp add: drop_9_Cons)
  show "trailing_checksum line < 256"
    unfolding tc by (rule hex_value_byte [OF lc])
  show "checksum_field line = of_nat (trailing_checksum line)"
  proof -
    have "length line - 3 = 9 + 2 * n"
      unfolding line using lenb by simp
    then have "drop (length line - 3) line = ?c @ ''\<newline>''"
      unfolding line using lenb by (simp add: drop_9_Cons)
    moreover have "scan_X (Some 2) (?c @ ''\<newline>'') = Some (of_nat (hex_value ?c), ''\<newline>'')"
      by (rule scan_X_hex_pair [OF lc]) (use hex in \<open>auto dest: in_set_dropD\<close>)
    ultimately show ?thesis
      unfolding checksum_field_def tc by simp
  qed
qed

lemma field_value_byte: "field_value line k 2 < 256"
proof -
  have "hex_value (take 2 (drop k line)) < 16 ^ length (take 2 (drop k line))"
    by (rule hex_value_bound)
  also have "\<dots> \<le> 16 ^ 2"
    by (intro power_increasing) simp_all
  finally show ?thesis by (simp add: field_value_def)
qed

lemma uint_of_nat_32_small: "k < 65536 \<Longrightarrow> uint (of_nat k :: 32 word) = int k"
  by (simp add: uint_nat unat_of_nat_32_small)

subsection \<open>Lines, evaluated\<close>

text \<open>
  A Data record with three bytes at address 0030; an End-Of-File record whose address
  field holds the letter G; a line whose record type is ZZ; a line whose byte count is
  ZZ; the End-Of-File record without and with its newline character; a line whose byte
  count is -1; and a Data record with 40 bytes.
\<close>

lemma upt_2: "[0..<2] = [0, 1]"
  by (simp add: upt_rec)

lemma upt_3: "[0..<3] = [0, 1, 2]"
  by (simp add: upt_rec)

lemma tokens_data_line:
  "sscanf_header_strings '':0300300002337A1E\<newline>'' = Some (''03'', ''0030'', ''00'')"
  by code_simp

lemma header_data_line:
  "header_fields r ''03'' ''0030'' ''00''
   = r\<lparr>byte_count := 3, address := 0x30, record_type := 0\<rparr>"
proof -
  have 1: "scan_X None ''03'' = Some (3, [])" by code_simp
  have 2: "scan_X None ''0030'' = Some (0x30, [])" by code_simp
  have 3: "scan_X None ''00'' = Some (0, [])" by code_simp
  show ?thesis by (simp add: header_fields_def 1 2 3)
qed

lemma data_byte_data_line: "data_byte '':0300300002337A1E\<newline>'' = 3"
  by (simp add: data_byte_def)

lemma parse_data_line:
  "parse_data '':0300300002337A1E\<newline>'' 3 m =
     store_uint (store_uint (store_uint m 0 2) 1 0x33) 2 0x7A"
proof -
  have 1: "scan_X (Some 2) ''02337A1E\<newline>'' = Some (2, ''337A1E\<newline>'')" by code_simp
  have 2: "scan_X (Some 2) ''337A1E\<newline>'' = Some (0x33, ''7A1E\<newline>'')" by code_simp
  have 3: "scan_X (Some 2) ''7A1E\<newline>'' = Some (0x7A, ''1E\<newline>'')" by code_simp
  show ?thesis by (simp add: parse_data_def upt_3 1 2 3)
qed

lemma checksum_data_line: "checksum_field '':0300300002337A1E\<newline>'' = 0x1E"
  by code_simp

lemma sum_data_line:
  "unat (byte_count (read_data ind '':0300300002337A1E\<newline>''
            (header_fields r ''03'' ''0030'' ''00'')))
   + unat (address (read_data ind '':0300300002337A1E\<newline>''
            (header_fields r ''03'' ''0030'' ''00''))) div 256
   + unat (address (read_data ind '':0300300002337A1E\<newline>''
            (header_fields r ''03'' ''0030'' ''00''))) mod 256
   + unat (record_type (read_data ind '':0300300002337A1E\<newline>''
            (header_fields r ''03'' ''0030'' ''00'')))
   + (\<Sum>i<unat (byte_count (read_data ind '':0300300002337A1E\<newline>''
            (header_fields r ''03'' ''0030'' ''00''))).
        unat (data (read_data ind '':0300300002337A1E\<newline>''
            (header_fields r ''03'' ''0030'' ''00'')) i)) = 226"
proof -
  have "{..<3::nat} = {0, 1, 2}" by auto
  then show ?thesis
    by (simp add: read_data_def header_data_line parse_data_line store_uint_def)
qed

lemma calculated_data_line:
  "calculated_checksum (read_data ind '':0300300002337A1E\<newline>''
      (header_fields r ''03'' ''0030'' ''00'')) = 0x1E"
proof -
  have "uint (calculated_checksum (read_data ind '':0300300002337A1E\<newline>''
      (header_fields r ''03'' ''0030'' ''00''))) = uint (0x1E :: 32 word)"
    by (simp only: calculated_checksum_value sum_data_line) simp
  then show ?thesis by (simp only: word_uint_eq_iff)
qed

lemma tokens_G:
  "sscanf_header_strings '':00000G01FF\<newline>'' = Some (''00'', ''000G'', ''01'')"
  by code_simp

lemma header_G:
  "header_fields r ''00'' ''000G'' ''01''
   = r\<lparr>byte_count := 0, address := 0, record_type := 1\<rparr>"
proof -
  have 1: "scan_X None ''00'' = Some (0, [])" by code_simp
  have 2: "scan_X None ''000G'' = Some (0, ''G'')" by code_simp
  have 3: "scan_X None ''01'' = Some (1, [])" by code_simp
  show ?thesis by (simp add: header_fields_def 1 2 3)
qed

lemma checksum_G: "checksum_field '':00000G01FF\<newline>'' = 0xFF"
  by code_simp

lemma calculated_eof:
  "calculated_checksum (r\<lparr>byte_count := 0, address := 0, record_type := 1, data := m\<rparr>)
   = 0xFF"
  by (simp add: calculated_checksum_def)

lemma checkRecord_G: "checkRecord ind '':00000G01FF\<newline>'' = Returns 0"
  unfolding checkRecord_tokens [OF tokens_G] header_G read_data_def
  by (simp add: data_byte_def parse_data_0 checksum_G calculated_eof block_overrun_0)

lemma tokens_ZZ_type:
  "sscanf_header_strings '':000000ZZ\<newline>'' = Some (''00'', ''0000'', ''ZZ'')"
  by code_simp

lemma checkRecord_ZZ_type: "checkRecord ind '':000000ZZ\<newline>'' = Returns 3"
  unfolding checkRecord_tokens [OF tokens_ZZ_type] by simp

lemma tokens_ZZ_count:
  "sscanf_header_strings '':ZZ000001FF\<newline>'' = Some (''ZZ'', ''0000'', ''01'')"
  by code_simp

lemma header_ZZ_count:
  "header_fields r ''ZZ'' ''0000'' ''01'' = r\<lparr>address := 0, record_type := 1\<rparr>"
proof -
  have 1: "scan_X None ''ZZ'' = None" by code_simp
  have 2: "scan_X None ''0000'' = Some (0, [])" by code_simp
  have 3: "scan_X None ''01'' = Some (1, [])" by code_simp
  show ?thesis by (simp add: header_fields_def 1 2 3)
qed

lemma checksum_ZZ_count: "checksum_field '':ZZ000001FF\<newline>'' = 0xFF"
  by code_simp

lemma checkRecord_ZZ_count:
  "checkRecord ind '':ZZ000001FF\<newline>''
   = (if byte_count (local_record ind) \<noteq> 0 then Returns 4 else Returns 0)"
  unfolding checkRecord_tokens [OF tokens_ZZ_count] header_ZZ_count read_data_def
  by (simp add: data_byte_def parse_data_0 checksum_ZZ_count calculated_checksum_def
      block_overrun_0)

lemma tokens_eof_no_newline:
  "sscanf_header_strings '':00000001FF'' = Some (''00'', ''0000'', ''01'')"
  by code_simp

lemma header_eof:
  "header_fields r ''00'' ''0000'' ''01''
   = r\<lparr>byte_count := 0, address := 0, record_type := 1\<rparr>"
proof -
  have 1: "scan_X None ''00'' = Some (0, [])" by code_simp
  have 2: "scan_X None ''0000'' = Some (0, [])" by code_simp
  have 3: "scan_X None ''01'' = Some (1, [])" by code_simp
  show ?thesis by (simp add: header_fields_def 1 2 3)
qed

lemma checksum_eof_no_newline: "checksum_field '':00000001FF'' = 0x1F"
  by code_simp

lemma checkRecord_eof_no_newline: "checkRecord ind '':00000001FF'' = Returns 5"
  unfolding checkRecord_tokens [OF tokens_eof_no_newline] header_eof read_data_def
  by (simp add: data_byte_def parse_data_0 checksum_eof_no_newline calculated_eof
      block_overrun_0)

lemma tokens_eof: "sscanf_header_strings '':00000001FF\<newline>'' = Some (''00'', ''0000'', ''01'')"
  by code_simp

lemma checksum_eof: "checksum_field '':00000001FF\<newline>'' = 0xFF"
  by code_simp

lemma checkRecord_eof: "checkRecord ind '':00000001FF\<newline>'' = Returns 0"
  unfolding checkRecord_tokens [OF tokens_eof] header_eof read_data_def
  by (simp add: data_byte_def parse_data_0 checksum_eof calculated_eof block_overrun_0)

lemma tokens_minus_1:
  "sscanf_header_strings '':-1000001\<newline>'' = Some (''-1'', ''0000'', ''01'')"
  by code_simp

lemma header_minus_1:
  "header_fields r ''-1'' ''0000'' ''01''
   = r\<lparr>byte_count := - 1, address := 0, record_type := 1\<rparr>"
proof -
  have 1: "scan_X None ''-1'' = Some (- 1, [])" by code_simp
  have 2: "scan_X None ''0000'' = Some (0, [])" by code_simp
  have 3: "scan_X None ''01'' = Some (1, [])" by code_simp
  show ?thesis by (simp add: header_fields_def 1 2 3)
qed

lemma data_byte_minus_1: "data_byte '':-1000001\<newline>'' = - 1"
  by code_simp

lemma tokens_40: "sscanf_header_strings 
     '':2800000000000000000000000000000000000000000000000000000000000000000000000000000000000000D8\<newline>'' = Some (''28'', ''0000'', ''00'')"
  by code_simp

lemma header_40:
  "header_fields r ''28'' ''0000'' ''00''
   = r\<lparr>byte_count := 40, address := 0, record_type := 0\<rparr>"
proof -
  have 1: "scan_X None ''28'' = Some (40, [])" by code_simp
  have 2: "scan_X None ''0000'' = Some (0, [])" by code_simp
  have 3: "scan_X None ''00'' = Some (0, [])" by code_simp
  show ?thesis by (simp add: header_fields_def 1 2 3)
qed

lemma data_byte_40: "data_byte 
     '':2800000000000000000000000000000000000000000000000000000000000000000000000000000000000000D8\<newline>'' = 40"
  by code_simp

lemma block_overrun_40: "block_overrun 
     '':2800000000000000000000000000000000000000000000000000000000000000000000000000000000000000D8\<newline>'' 40"
  by code_simp

lemma checkRecord_40: "checkRecord ind 
     '':2800000000000000000000000000000000000000000000000000000000000000000000000000000000000000D8\<newline>'' = Undefined"
  unfolding checkRecord_tokens [OF tokens_40] header_40
  by (simp add: data_byte_40 block_overrun_40)

subsection \<open>The checksum step\<close>

text \<open>
  A line reaches the checksum step when it starts with the colon, the header scan
  gives three tokens, the type token is one of the five accepted ones and the observed
  number of data bytes equals the byte count (on a line of at least 11 characters, which
  holds whenever the count did not wrap around). For every such line whose stores stay
  inside the block the function returns 5 exactly when minus the sum of byte count, high
  part of the address, low byte of the address, record type and all data bytes, taken
  modulo 256, differs from the checksum field read from the last three characters of the
  line, and returns 0 otherwise. The sum is over the fields as the function holds them;
  the high part of the address is its high byte for an address of four hexadecimal
  digits.
\<close>

lemma checksum_step:
  assumes "take 1 line = '':''"
    and "sscanf_header_strings line = Some (b, a, t)"
    and "t = ''00'' \<or> t = ''01'' \<or> t = ''02'' \<or> t = ''04'' \<or> t = ''05''"
    and "data_byte line = byte_count (header_fields (local_record ind) b a t)"
    and "11 \<le> length line"
    and "\<not> block_overrun line (unat (byte_count (header_fields (local_record ind) b a t)))"
  shows "checkRecord ind line =
     (let record = read_data ind line (header_fields (local_record ind) b a t);
          calculated = unat (byte_count record) + unat (address record) div 256
                       + unat (address record) mod 256 + unat (record_type record)
                       + (\<Sum>i<unat (byte_count record). unat (data record i))
      in if (- int calculated) mod 256 \<noteq> uint (checksum_field line)
         then Returns 5 else Returns 0)"
proof -
  let ?r = "read_data ind line (header_fields (local_record ind) b a t)"
  have "checkRecord ind line =
      (if calculated_checksum ?r \<noteq> checksum_field line then Returns 5 else Returns 0)"
    using assms by (auto simp add: checkRecord_def Let_def)
  then show ?thesis
    by (simp only: Let_def word_uint_eq_iff calculated_checksum_value)
qed

lemma checksum_step_data_line:
  "take 1 '':0300300002337A1E\<newline>'' = '':''
   \<and> sscanf_header_strings '':0300300002337A1E\<newline>'' = Some (''03'', ''0030'', ''00'')
   \<and> data_byte '':0300300002337A1E\<newline>''
       = byte_count (header_fields (local_record zero_indeterminate) ''03'' ''0030'' ''00'')
   \<and> 11 \<le> length '':0300300002337A1E\<newline>''
   \<and> checkRecord zero_indeterminate '':0300300002337A1E\<newline>'' = Returns 0"
proof -
  have h1: "take 1 '':0300300002337A1E\<newline>'' = '':''" by simp
  have h3: "''00'' = ''00'' \<or> ''00'' = ''01'' \<or> ''00'' = ''02'' \<or> ''00'' = ''04''
            \<or> ''00'' = ''05''"
    by simp
  have h4: "data_byte '':0300300002337A1E\<newline>''
       = byte_count (header_fields (local_record zero_indeterminate) ''03'' ''0030'' ''00'')"
    by (simp add: data_byte_data_line header_data_line)
  have h5: "11 \<le> length '':0300300002337A1E\<newline>''" by simp
  have h6: "\<not> block_overrun '':0300300002337A1E\<newline>''
      (unat (byte_count (header_fields (local_record zero_indeterminate)
                           ''03'' ''0030'' ''00'')))"
    by (rule block_fits) (simp add: header_data_line malloc_usable_size_def)
  have "checkRecord zero_indeterminate '':0300300002337A1E\<newline>'' = Returns 0"
    using checksum_step [OF h1 tokens_data_line h3 h4 h5 h6]
    by (simp only: Let_def sum_data_line checksum_data_line) simp
  with h1 h4 h5 tokens_data_line show ?thesis by simp
qed

text \<open>
  The same with every quantity read from the text of the line. The line is a record in
  the format of the specification and a newline character: a colon and hexadecimal
  digits, two for each of the bytes that the byte count declares besides the ten of the
  header and the checksum, with one of the five record types. When the stores for that
  many bytes stay inside the block, the function returns 5 exactly when minus the sum of
  the fields, modulo 256, differs from the trailing checksum field, and 0 otherwise,
  whatever the uninitialised memory held.
\<close>

lemma checksum_of_terminated_record:
  assumes line: "line = CHR '':'' # body @ ''\<newline>''"
    and hex: "\<forall>c\<in>set body. isxdigit c"
    and len: "length body = 10 + 2 * declared_byte_count line"
    and type: "take 2 (drop 6 body) = ''00'' \<or> take 2 (drop 6 body) = ''01''
               \<or> take 2 (drop 6 body) = ''02'' \<or> take 2 (drop 6 body) = ''04''
               \<or> take 2 (drop 6 body) = ''05''"
    and fits: "declared_byte_count line + 3 \<le> malloc_usable_size (declared_byte_count line)"
  shows "checkRecord ind line =
     (if (- int (field_sum line)) mod 256 \<noteq> int (trailing_checksum line)
      then Returns 5 else Returns 0)"
proof -
  let ?n = "declared_byte_count line"
  let ?a = "take 4 (drop 2 body)"
  let ?h = "header_fields (local_record ind) (take 2 body) ?a (take 2 (drop 6 body))"
  let ?r = "read_data ind line ?h"
  note f = terminated_record_fields [OF line hex len]
  have bc: "byte_count ?h = of_nat ?n" by (simp add: f(2))
  have un: "unat (byte_count ?h) = ?n"
    unfolding bc by (rule unat_of_nat_32_small) (use f(3) in simp)
  have 1: "take 1 line = '':''" unfolding line by simp
  have 4: "data_byte line = byte_count ?h" unfolding bc by (rule f(4))
  have 5: "11 \<le> length line" unfolding line using len by simp
  have 6: "\<not> block_overrun line (unat (byte_count ?h))"
    unfolding un by (rule block_fits [OF fits])
  have step: "checkRecord ind line =
     (let record = ?r;
          calculated = unat (byte_count record) + unat (address record) div 256
                       + unat (address record) mod 256 + unat (record_type record)
                       + (\<Sum>i<unat (byte_count record). unat (data record i))
      in if (- int calculated) mod 256 \<noteq> uint (checksum_field line)
         then Returns 5 else Returns 0)"
    by (rule checksum_step [OF 1 f(1) type 4 5 6])
  have la: "length ?a = 4" using len by simp
  have ubc: "unat (byte_count ?r) = ?n"
    using un by (simp add: read_data_def)
  have "address ?r = of_nat (hex_value ?a)" by (simp add: read_data_def f(2))
  then have ua: "unat (address ?r) = hex_value ?a"
    by (simp only: unat_of_nat_32_small [OF hex_value_four(3) [OF la]])
  have fv3: "field_value line 3 2 = hex_value (take 2 ?a)"
    unfolding field_value_def line using len by simp
  have fv5: "field_value line 5 2 = hex_value (drop 2 ?a)"
    unfolding field_value_def line using len by (simp add: drop_take)
  have hi: "unat (address ?r) div 256 = field_value line 3 2"
    unfolding ua fv3 by (rule hex_value_four(1) [OF la])
  have lo: "unat (address ?r) mod 256 = field_value line 5 2"
    unfolding ua fv5 by (rule hex_value_four(2) [OF la])
  have "record_type ?r = of_nat (field_value line 7 2)"
    by (simp add: read_data_def f(2))
  then have ty: "unat (record_type ?r) = field_value line 7 2"
    using field_value_byte [of line 7] by (simp add: unat_of_nat_32_small)
  have dat: "unat (data ?r i) = field_value line (9 + 2 * i) 2" if "i < ?n" for i
  proof -
    have "data ?r i = parse_data line ?n (malloc_block ind) i"
      by (simp add: read_data_def un)
    also have "\<dots> = ucast (of_nat (field_value line (9 + 2 * i) 2) :: 32 word)"
      by (rule parse_data_at [OF f(5) that])
    finally show ?thesis
      by (simp only: unat_data_byte [OF field_value_byte])
  qed
  have sum: "(\<Sum>i<?n. unat (data ?r i)) = (\<Sum>i<?n. field_value line (9 + 2 * i) 2)"
    by (rule sum.cong) (simp_all add: dat)
  have calc: "unat (byte_count ?r) + unat (address ?r) div 256
              + unat (address ?r) mod 256 + unat (record_type ?r)
              + (\<Sum>i<unat (byte_count ?r). unat (data ?r i)) = field_sum line"
    unfolding ubc sum hi lo ty field_sum_def by (rule refl)
  have cs: "uint (checksum_field line) = int (trailing_checksum line)"
    unfolding f(6) by (rule uint_of_nat_32_small) (use f(7) in simp)
  show ?thesis
    unfolding step Let_def calc cs by (rule refl)
qed

lemma checksum_of_terminated_record_data_line:
  "checkRecord ind '':0300300002337A1E\<newline>'' = Returns 0
   \<and> field_sum '':0300300002337A1E\<newline>'' = 226
   \<and> trailing_checksum '':0300300002337A1E\<newline>'' = 30"
proof -
  have n: "declared_byte_count '':0300300002337A1E\<newline>'' = 3" by code_simp
  have s: "field_sum '':0300300002337A1E\<newline>'' = 226" by code_simp
  have t: "trailing_checksum '':0300300002337A1E\<newline>'' = 30" by code_simp
  have hex: "\<forall>c\<in>set ''0300300002337A1E''. isxdigit c" by code_simp
  have "checkRecord ind '':0300300002337A1E\<newline>'' = Returns 0"
    using checksum_of_terminated_record
      [of "'':0300300002337A1E\<newline>''" "''0300300002337A1E''" ind] hex
    by (simp add: n s t malloc_usable_size_def)
  with s t show ?thesis by simp
qed

text \<open>
  C1 says that the function reports a checksum mismatch exactly when the computed value
  differs from the trailing checksum field of the record. The function takes the field
  from the three last characters of the line, where the checksum stands when a newline
  character ends the line. The last line of a file that does not end with a newline has
  none: on the End-Of-File record \<^verbatim>\<open>:00000001FF\<close> without a newline the computed value is
  FF, as is the trailing field, and the function returns 5, because it read 1F. With the
  newline the same record passes.
\<close>

theorem checksum_without_newline:
  "(- int (field_sum '':00000001FF'')) mod 256 = int (trailing_checksum '':00000001FF'')
   \<and> checkRecord ind '':00000001FF'' = Returns 5
   \<and> checksum_field '':00000001FF'' = 0x1F
   \<and> checkRecord ind '':00000001FF\<newline>'' = Returns 0"
proof -
  have "field_sum '':00000001FF'' = 1" by code_simp
  moreover have "trailing_checksum '':00000001FF'' = 255" by code_simp
  ultimately show ?thesis
    by (simp add: checkRecord_eof_no_newline checksum_eof_no_newline checkRecord_eof)
qed

subsection \<open>The order of the checks\<close>

text \<open>
  The function as a chain of its checks: the result is the code of the first check that
  fails in the order start code (1), header fields (2), record type (3), byte count (4),
  checksum (5), and 0 when all five pass; a check decides the result only when every
  earlier one passed. Between the byte count and the checksum stand the two cases in
  which the function has no result: the counts agree on a line shorter than 11
  characters, and the code reads outside the line; or a store of the data loop ends
  behind the block.
\<close>

lemma first_match_priority:
  "checkRecord ind line =
     (if \<not> start_code_present line then Returns 1
      else if \<not> fields_scanned line then Returns 2
      else if \<not> type_valid line then Returns 3
      else if \<not> count_matches ind line then Returns 4
      else if length line < 11 \<or> data_overrun ind line then Undefined
      else if \<not> checksum_matches ind line then Returns 5
      else Returns 0)"
proof (cases "sscanf_header_strings line")
  case None
  then show ?thesis
    by (simp add: checkRecord_def start_code_present_def fields_scanned_def)
next
  case (Some tok)
  obtain b a t where tok: "sscanf_header_strings line = Some (b, a, t)"
    using Some by (cases tok) auto
  have scanned: "fields_scanned line"
    by (simp add: fields_scanned_def tok)
  show ?thesis
    unfolding checkRecord_tokens [OF tok] start_code_present_def type_valid_def
      count_matches_def checksum_matches_def data_overrun_def tok option.case prod.case
    by (rule check_chain [OF scanned])
qed

lemma first_match_priority_lines:
  "start_code_present '':0300300002337A1E\<newline>''
   \<and> fields_scanned '':0300300002337A1E\<newline>''
   \<and> type_valid '':0300300002337A1E\<newline>''
   \<and> count_matches zero_indeterminate '':0300300002337A1E\<newline>''
   \<and> checksum_matches zero_indeterminate '':0300300002337A1E\<newline>''
   \<and> checkRecord zero_indeterminate '':0300300002337A1E\<newline>'' = Returns 0
   \<and> \<not> type_valid '':000000ZZ\<newline>''
   \<and> checkRecord zero_indeterminate '':000000ZZ\<newline>'' = Returns 3"
proof -
  have p: "start_code_present '':0300300002337A1E\<newline>''"
    "fields_scanned '':0300300002337A1E\<newline>''"
    "type_valid '':0300300002337A1E\<newline>''"
    "count_matches zero_indeterminate '':0300300002337A1E\<newline>''"
    by (simp_all add: start_code_present_def fields_scanned_def type_valid_def
        count_matches_def tokens_data_line data_byte_data_line header_data_line)
  have c: "checksum_matches zero_indeterminate '':0300300002337A1E\<newline>''"
    by (simp add: checksum_matches_def tokens_data_line calculated_data_line
        checksum_data_line)
  have o: "\<not> data_overrun zero_indeterminate '':0300300002337A1E\<newline>''"
    unfolding data_overrun_def tokens_data_line option.case prod.case
    by (rule block_fits) (simp add: header_data_line malloc_usable_size_def)
  have q: "start_code_present '':000000ZZ\<newline>''" "fields_scanned '':000000ZZ\<newline>''"
    "\<not> type_valid '':000000ZZ\<newline>''"
    by (simp_all add: start_code_present_def fields_scanned_def type_valid_def
        tokens_ZZ_type)
  show ?thesis
    using first_match_priority [of zero_indeterminate "'':0300300002337A1E\<newline>''"]
      first_match_priority [of zero_indeterminate "'':000000ZZ\<newline>''"] p c o q
    by simp
qed

text \<open>
  C2 says that every line gets exactly one of the codes. On \<^verbatim>\<open>:-1000001\<close> followed by a
  newline character the first four checks pass: the token \<^verbatim>\<open>-1\<close> converts to the largest
  32-bit value, and the observed count of a line of 10 characters is that value too,
  because its length minus 11 wraps around. The data loop then scans the line from
  offset 9 on for 4294967295 fields and leaves it: the call gives no code.
\<close>

theorem wrapped_count_reads_outside:
  "start_code_present '':-1000001\<newline>'' \<and> fields_scanned '':-1000001\<newline>''
   \<and> type_valid '':-1000001\<newline>'' \<and> count_matches ind '':-1000001\<newline>''
   \<and> length '':-1000001\<newline>'' = 10
   \<and> checkRecord ind '':-1000001\<newline>'' = Undefined"
proof -
  have "checkRecord ind '':-1000001\<newline>'' = Undefined"
    unfolding checkRecord_tokens [OF tokens_minus_1] header_minus_1
    by (simp add: data_byte_minus_1)
  then show ?thesis
    by (simp add: start_code_present_def fields_scanned_def type_valid_def
        count_matches_def tokens_minus_1 header_minus_1 data_byte_minus_1)
qed

subsection \<open>The header fields\<close>

text \<open>
  C5, as the code has it. The scan of the header reads three tokens of at most 2, 4 and 2
  characters that are not white space; it does not look at whether they are hexadecimal
  digits. So the function returns 2 exactly when the line starts with the colon and the
  scan finds fewer than three tokens: always when fewer than three characters other than
  white space follow the colon, and never when eight such characters follow it,
  hexadecimal or not.
\<close>

theorem malformed_fields_scan:
  "((checkRecord ind line = Returns 2)
      = (take 1 line = '':'' \<and> sscanf_header_strings line = None))
   \<and> (length (filter (\<lambda>c. \<not> isspace c) r) < 3 \<longrightarrow>
         checkRecord ind (CHR '':'' # r) = Returns 2)
   \<and> (length h = 8 \<and> (\<forall>c\<in>set h. \<not> isspace c) \<longrightarrow>
         checkRecord ind (CHR '':'' # h @ rest) \<noteq> Returns 2)"
proof (intro conjI impI)
  show "(checkRecord ind line = Returns 2)
      = (take 1 line = '':'' \<and> sscanf_header_strings line = None)"
    by (rule returns_2_iff)
next
  assume "length (filter (\<lambda>c. \<not> isspace c) r) < 3"
  then have "sscanf_header_strings (CHR '':'' # r) = None"
    by (rule header_strings_few)
  then show "checkRecord ind (CHR '':'' # r) = Returns 2"
    by (simp add: returns_2_iff)
next
  assume "length h = 8 \<and> (\<forall>c\<in>set h. \<not> isspace c)"
  then have "sscanf_header_strings (CHR '':'' # h @ rest) \<noteq> None"
    by (simp add: header_strings_eight)
  then show "checkRecord ind (CHR '':'' # h @ rest) \<noteq> Returns 2"
    by (simp only: returns_2_iff) simp
qed

theorem malformed_fields_scan_witness:
  "length (filter (\<lambda>c. \<not> isspace c) ''00 \<newline>'') < 3
   \<and> checkRecord zero_indeterminate '':00 \<newline>'' = Returns 2
   \<and> length ''00000G01'' = 8 \<and> list_all (\<lambda>c. \<not> isspace c) ''00000G01''
   \<and> checkRecord zero_indeterminate '':00000G01FF\<newline>'' \<noteq> Returns 2"
  using malformed_fields_scan [of zero_indeterminate "[]" "''00 \<newline>''" "''00000G01''"
      "''FF\<newline>''"]
  by (simp add: isspace_def)

text \<open>
  The claim C5 as the specification words it fails on two lines that start with the colon
  and hold a character that is no hexadecimal digit in a header field: with G in the
  address field the line is accepted as a valid record, and with ZZ as the record type
  the result is 3, not 2.
\<close>

theorem malformed_fields_counterexample:
  "take 1 '':00000G01FF\<newline>'' = '':'' \<and> \<not> isxdigit (CHR ''G'')
   \<and> checkRecord zero_indeterminate '':00000G01FF\<newline>'' = Returns 0
   \<and> take 1 '':000000ZZ\<newline>'' = '':'' \<and> \<not> isxdigit (CHR ''Z'')
   \<and> checkRecord zero_indeterminate '':000000ZZ\<newline>'' = Returns 3"
  by (simp add: checkRecord_G checkRecord_ZZ_type isxdigit_def hexval_def)

subsection \<open>The byte count\<close>

text \<open>
  For every line that passes the checks of the start code, the header fields and the
  record type, the observed number of data bytes is the length of the line (its
  terminator included) minus 11, halved, rounded down and taken on 32 bits, and the
  function returns 4 exactly when that number differs from the byte count that the
  function holds.
\<close>

lemma byte_count_check:
  assumes "take 1 line = '':''"
    and "sscanf_header_strings line = Some (b, a, t)"
    and "t = ''00'' \<or> t = ''01'' \<or> t = ''02'' \<or> t = ''04'' \<or> t = ''05''"
  shows "data_byte line = word_of_int ((int (length line) - 11) div 2)
    \<and> (checkRecord ind line = Returns 4)
        = (word_of_int ((int (length line) - 11) div 2)
           \<noteq> byte_count (header_fields (local_record ind) b a t))"
proof -
  have valid: "\<not> (t \<noteq> ''00'' \<and> t \<noteq> ''01'' \<and> t \<noteq> ''02'' \<and> t \<noteq> ''04'' \<and> t \<noteq> ''05'')"
    using assms(3) by blast
  have "(checkRecord ind line = Returns 4)
        = (data_byte line \<noteq> byte_count (header_fields (local_record ind) b a t))"
    unfolding checkRecord_tokens [OF assms(2)] using assms(1) valid
    by (simp only: if_False if_True not_not simp_thms) simp
  then show ?thesis by (simp only: data_byte_floor simp_thms)
qed

lemma byte_count_check_lines:
  "take 1 '':0300300002337A1E\<newline>'' = '':''
   \<and> sscanf_header_strings '':0300300002337A1E\<newline>'' = Some (''03'', ''0030'', ''00'')
   \<and> data_byte '':0300300002337A1E\<newline>'' = 3
   \<and> byte_count (header_fields (local_record zero_indeterminate) ''03'' ''0030'' ''00'') = 3
   \<and> checkRecord zero_indeterminate '':0300300002337A1E\<newline>'' \<noteq> Returns 4
   \<and> take 1 '':03003000021E\<newline>'' = '':''
   \<and> sscanf_header_strings '':03003000021E\<newline>'' = Some (''03'', ''0030'', ''00'')
   \<and> data_byte '':03003000021E\<newline>'' = 1
   \<and> checkRecord zero_indeterminate '':03003000021E\<newline>'' = Returns 4"
proof -
  have short: "sscanf_header_strings '':03003000021E\<newline>'' = Some (''03'', ''0030'', ''00'')"
    by code_simp
  show ?thesis
    using byte_count_check [OF _ tokens_data_line, of zero_indeterminate]
      byte_count_check [OF _ short, of zero_indeterminate]
    by (simp add: tokens_data_line short header_data_line)
qed

text \<open>
  When the eight characters after the colon are hexadecimal digits, the byte count that
  the function holds is the one the line declares, the value of its first two digits,
  and the verdict is a function of the line.
\<close>

lemma declared_byte_count_Cons:
  assumes "2 \<le> length h"
  shows "declared_byte_count (c # h @ rest) = hex_value (take 2 h)"
  using assms by (simp add: declared_byte_count_def field_value_def)

lemma byte_count_of_hex_header:
  assumes line: "line = CHR '':'' # h @ rest" and len: "length h = 8"
    and hex: "\<forall>c\<in>set h. isxdigit c"
  shows "sscanf_header_strings line = Some (take 2 h, take 4 (drop 2 h), drop 6 h)"
    and "byte_count (header_fields r (take 2 h) (take 4 (drop 2 h)) (drop 6 h))
         = of_nat (declared_byte_count line)"
proof -
  show "sscanf_header_strings line = Some (take 2 h, take 4 (drop 2 h), drop 6 h)"
    unfolding line by (rule header_strings_eight [OF len])
      (use hex in \<open>simp add: isxdigit_not_space\<close>)
  have sub: "\<forall>c\<in>set (take 2 h). isxdigit c" "\<forall>c\<in>set (take 4 (drop 2 h)). isxdigit c"
    "\<forall>c\<in>set (drop 6 h). isxdigit c"
    using hex by (auto dest: in_set_takeD in_set_dropD)
  have ne: "take 2 h \<noteq> []" "take 4 (drop 2 h) \<noteq> []" "drop 6 h \<noteq> []"
    using len by auto
  have "header_fields r (take 2 h) (take 4 (drop 2 h)) (drop 6 h)
        = r\<lparr>byte_count := of_nat (hex_value (take 2 h)),
             address := of_nat (hex_value (take 4 (drop 2 h))),
             record_type := of_nat (hex_value (drop 6 h))\<rparr>"
    by (rule header_fields_hex [OF ne(1) sub(1) ne(2) sub(2) ne(3) sub(3)])
  then show "byte_count (header_fields r (take 2 h) (take 4 (drop 2 h)) (drop 6 h))
         = of_nat (declared_byte_count line)"
    unfolding line using len by (simp add: declared_byte_count_Cons)
qed

lemma byte_count_check_declared:
  assumes line: "line = CHR '':'' # h @ rest" and len: "length h = 8"
    and hex: "\<forall>c\<in>set h. isxdigit c"
    and type: "drop 6 h = ''00'' \<or> drop 6 h = ''01'' \<or> drop 6 h = ''02''
               \<or> drop 6 h = ''04'' \<or> drop 6 h = ''05''"
  shows "(checkRecord ind line = Returns 4)
         = (word_of_int ((int (length line) - 11) div 2)
            \<noteq> (of_nat (declared_byte_count line) :: 32 word))"
proof -
  note f = byte_count_of_hex_header [OF line len hex]
  have 1: "take 1 line = '':''" unfolding line by simp
  from byte_count_check [OF 1 f(1) type, of ind]
  show ?thesis unfolding f(2) by (rule conjunct2)
qed

lemma byte_count_check_declared_lines:
  "checkRecord ind '':0300300002337A1E\<newline>'' \<noteq> Returns 4
   \<and> checkRecord ind '':03003000021E\<newline>'' = Returns 4"
proof -
  have hex: "\<forall>c\<in>set ''03003000''. isxdigit c" by code_simp
  have 1: "declared_byte_count '':0300300002337A1E\<newline>'' = 3" by code_simp
  have 2: "declared_byte_count '':03003000021E\<newline>'' = 3" by code_simp
  show ?thesis
    using byte_count_check_declared
        [of "'':0300300002337A1E\<newline>''" "''03003000''" "''02337A1E\<newline>''" ind]
      byte_count_check_declared
        [of "'':03003000021E\<newline>''" "''03003000''" "''021E\<newline>''" ind] hex
    by (simp add: 1 2)
qed

text \<open>
  C6 says that the verdict of the byte count check follows from the observed count and
  the declared one, on every line that passes the three earlier checks. The line
  \<^verbatim>\<open>:ZZ000001FF\<close> passes them and declares no count: the token ZZ does not convert, the
  conversion is not tested, and the observed count 0 is compared with what
  \<^verbatim>\<open>record.byte_count\<close> held before the call. The function accepts the record when that
  was 0 and returns 4 otherwise.
\<close>

theorem byte_count_not_in_line:
  "start_code_present '':ZZ000001FF\<newline>'' \<and> fields_scanned '':ZZ000001FF\<newline>''
   \<and> type_valid '':ZZ000001FF\<newline>''
   \<and> scan_X None ''ZZ'' = None
   \<and> data_byte '':ZZ000001FF\<newline>'' = 0
   \<and> checkRecord ind '':ZZ000001FF\<newline>''
       = (if byte_count (local_record ind) = 0 then Returns 0 else Returns 4)"
proof -
  have "scan_X None ''ZZ'' = None" by code_simp
  then show ?thesis
    by (simp add: start_code_present_def fields_scanned_def type_valid_def
        tokens_ZZ_count checkRecord_ZZ_count data_byte_def)
qed

subsection \<open>What the result depends on\<close>

text \<open>
  Where the tokens of the header and every data field convert, the result is the same
  whatever the uninitialised memory held: it is a function of the line.
\<close>

lemma checkRecord_determined_by_line:
  assumes "sscanf_header_strings line = Some (b, a, t)"
    and "scan_X None b \<noteq> None" and "scan_X None a \<noteq> None" and "scan_X None t \<noteq> None"
    and "\<forall>i<unat (byte_count (header_fields (local_record ind) b a t)).
           scan_X (Some 2) (drop (9 + i * 2) line) \<noteq> None"
  shows "checkRecord ind line = checkRecord ind' line"
proof -
  let ?h = "header_fields (local_record ind) b a t"
  let ?h' = "header_fields (local_record ind') b a t"
  from assms(2-4) obtain vb rb va ra vt rt where
    "scan_X None b = Some (vb, rb)" "scan_X None a = Some (va, ra)"
    "scan_X None t = Some (vt, rt)"
    by auto
  then have h: "byte_count ?h = byte_count ?h'" "address ?h = address ?h'"
    "record_type ?h = record_type ?h'"
    by (simp_all add: header_fields_def)
  have d: "\<forall>i<unat (byte_count (read_data ind line ?h)).
             data (read_data ind line ?h) i = data (read_data ind' line ?h') i"
  proof (intro allI impI)
    fix i
    assume "i < unat (byte_count (read_data ind line ?h))"
    then have i: "i < unat (byte_count ?h)" by (simp add: read_data_def)
    have "parse_data line (unat (byte_count ?h)) (malloc_block ind) i
          = parse_data line (unat (byte_count ?h)) (malloc_block ind') i"
      by (rule parse_data_determined [OF assms(5) i])
    then show "data (read_data ind line ?h) i = data (read_data ind' line ?h') i"
      by (simp add: read_data_def h(1))
  qed
  have c: "calculated_checksum (read_data ind line ?h)
           = calculated_checksum (read_data ind' line ?h')"
    by (rule calculated_checksum_cong [OF _ _ _ d]) (simp_all add: read_data_def h)
  show ?thesis
    unfolding checkRecord_tokens [OF assms(1)] h(1) c by (rule refl)
qed

text \<open>
  C9 asks for that on every line. On the line \<^verbatim>\<open>:ZZ000001FF\<close> the token ZZ does not
  convert, \<^verbatim>\<open>record.byte_count\<close> is read as the stack left it, and the result follows it:
  0 when the slot held 0, 4 when it still held the count 3 of an earlier record.
\<close>

theorem stale_byte_count_decides:
  "checkRecord zero_indeterminate '':ZZ000001FF\<newline>'' = Returns 0
   \<and> checkRecord stale_indeterminate '':ZZ000001FF\<newline>'' = Returns 4"
  by (simp add: checkRecord_ZZ_count zero_indeterminate_def stale_indeterminate_def
      zero_record_def)

section \<open>analyzeIntelHexFile\<close>

lemma analyze_loop_stopped: "analyze_loop env e False n lines = Returns e"
  by (cases lines) simp_all

lemma analyze_loop_passing:
  assumes "\<forall>i<length pre. checkRecord (env (n + i)) (pre ! i) = Returns 0"
  shows "analyze_loop env e True n (pre @ rest)
         = analyze_loop env (if pre = [] then e else e\<lparr>error_code := 0\<rparr>) True
             (n + length pre) rest"
  using assms
proof (induction pre arbitrary: e n)
  case Nil
  then show ?case by simp
next
  case (Cons x pre)
  from Cons.prems have "checkRecord (env (n + 0)) ((x # pre) ! 0) = Returns 0"
    by blast
  then have head: "checkRecord (env n) x = Returns 0" by simp
  have tail: "\<forall>i<length pre. checkRecord (env (Suc n + i)) (pre ! i) = Returns 0"
  proof (intro allI impI)
    fix i assume "i < length pre"
    then have "Suc i < length (x # pre)" by simp
    with Cons.prems have "checkRecord (env (n + Suc i)) ((x # pre) ! Suc i) = Returns 0"
      by blast
    then show "checkRecord (env (Suc n + i)) (pre ! i) = Returns 0" by simp
  qed
  show ?case
    using Cons.IH [OF tail, of "e\<lparr>error_code := 0\<rparr>"] head by simp
qed

text \<open>
  The scan is fail-fast. When the lines before line \<open>k\<close> all pass and line \<open>k\<close> gives the
  code \<open>c\<close>, the function returns \<open>c\<close> with the line number \<open>k\<close>, whatever lines follow:
  they are not checked.
\<close>

lemma analyze_stops_at_first_fault:
  assumes "\<forall>i<length pre. checkRecord (env (Suc i)) (pre ! i) = Returns 0"
    and "checkRecord (env (Suc (length pre))) bad = Returns c"
    and "c \<noteq> 0"
  shows "analyzeIntelHexFile env e (pre @ bad # rest)
         = Returns (c, e\<lparr>error_code := c, error_line := of_nat (Suc (length pre))\<rparr>)"
proof -
  have "analyze_loop env e True 1 (pre @ bad # rest)
        = analyze_loop env (if pre = [] then e else e\<lparr>error_code := 0\<rparr>) True
            (1 + length pre) (bad # rest)"
    by (rule analyze_loop_passing) (use assms(1) in simp)
  also have "\<dots> = Returns (e\<lparr>error_code := c, error_line := of_nat (Suc (length pre))\<rparr>)"
    using assms(2,3) by (simp add: analyze_loop_stopped)
  finally show ?thesis by (simp add: analyzeIntelHexFile_def)
qed

text \<open>When the file has a line and every line passes, the function returns 0.\<close>

lemma analyze_all_lines_pass:
  assumes "\<forall>i<length lines. checkRecord (env (Suc i)) (lines ! i) = Returns 0"
    and "lines \<noteq> []"
  shows "analyzeIntelHexFile env e lines = Returns (0, e\<lparr>error_code := 0\<rparr>)"
proof -
  have "analyze_loop env e True 1 (lines @ [])
        = analyze_loop env (if lines = [] then e else e\<lparr>error_code := 0\<rparr>) True
            (1 + length lines) []"
    by (rule analyze_loop_passing) (use assms(1) in simp)
  then show ?thesis using assms(2) by (simp add: analyzeIntelHexFile_def)
qed

text \<open>
  C3 holds so far, and fails on the file without lines: the loop body never runs, nothing
  is stored into the error structure, and the function returns the code that the caller's
  structure held, here 7. In \<^verbatim>\<open>main\<close> that structure is an uninitialised local.
\<close>

theorem analyze_empty_file:
  "analyzeIntelHexFile env err [] = Returns (error_code err, err)
   \<and> analyzeIntelHexFile env \<lparr>error_code = 7, error_line = 9\<rparr> []
       = Returns (7, \<lparr>error_code = 7, error_line = 9\<rparr>)"
  by (simp add: analyzeIntelHexFile_def)

section \<open>checkEOF\<close>

subsection \<open>The loop\<close>

lemma loop_found_EOF:
  "fst (snd (snd (checkEOF_loop lines ll el f k err)))
   = f + of_nat (length (filter (\<lambda>l. take 11 l = '':00000001FF'') lines))"
  by (induction lines arbitrary: ll el f k err)
    (simp_all add: is_EOF_line del: strncmp_eq.simps)

lemma loop_last_line:
  "fst (checkEOF_loop lines ll el f k err) = (if lines = [] then ll else last lines)"
  by (induction lines arbitrary: ll el f k err)
    (simp_all add: is_EOF_line del: strncmp_eq.simps)

lemma loop_EOF_line:
  "fst (snd (checkEOF_loop lines ll el f k err))
   = (if filter (\<lambda>l. take 11 l = '':00000001FF'') lines = [] then el
      else last (filter (\<lambda>l. take 11 l = '':00000001FF'') lines))"
  by (induction lines arbitrary: ll el f k err)
    (simp_all add: is_EOF_line del: strncmp_eq.simps)

lemma loop_prefix_without_EOF:
  assumes "filter (\<lambda>l. take 11 l = '':00000001FF'') pre = []"
  shows "checkEOF_loop (pre @ rest) ll el f k err
         = checkEOF_loop rest (if pre = [] then ll else last pre) el f (k + length pre) err"
  using assms
proof (induction pre arbitrary: ll k)
  case Nil
  then show ?case by simp
next
  case (Cons a pre)
  then have a: "take 11 a \<noteq> '':00000001FF''"
    and p: "filter (\<lambda>l. take 11 l = '':00000001FF'') pre = []"
    by (auto split: if_splits)
  have "checkEOF_loop ((a # pre) @ rest) ll el f k err
        = checkEOF_loop (pre @ rest) a el f (k + 1) err"
    using a by (simp add: is_EOF_line del: strncmp_eq.simps)
  also have "\<dots> = checkEOF_loop rest (if pre = [] then a else last pre) el f
                      (k + 1 + length pre) err"
    by (rule Cons.IH [OF p])
  finally show ?case by simp
qed

text \<open>While the eight-bit counter does not come back to 0, the line number stays.\<close>

lemma loop_error_kept:
  assumes "f \<noteq> 0"
    and "unat f + length (filter (\<lambda>l. take 11 l = '':00000001FF'') lines) < 256"
  shows "snd (snd (snd (checkEOF_loop lines ll el f k err))) = err"
  using assms
proof (induction lines arbitrary: ll el f k)
  case Nil
  then show ?case by simp
next
  case (Cons x lines)
  show ?case
  proof (cases "take 11 x = '':00000001FF''")
    case True
    with Cons.prems have small: "unat f + 1 < 256" by simp
    then have "unat f + unat (1 :: 8 word) < 2 ^ LENGTH(8)" by simp
    then have u: "unat (f + 1) = unat f + 1"
      by (simp only: unat_add_lem [THEN iffD1] unat_1)
    have nz: "f + 1 \<noteq> 0"
    proof
      assume "f + 1 = 0"
      then have "unat (f + 1) = 0" by simp
      with u show False by simp
    qed
    have "snd (snd (snd (checkEOF_loop lines x x (f + 1) (k + 1) err))) = err"
      by (rule Cons.IH [OF nz]) (use Cons.prems True u in simp)
    with True Cons.prems(1) show ?thesis
      by (simp add: is_EOF_line del: strncmp_eq.simps)
  next
    case False
    have "snd (snd (snd (checkEOF_loop lines x el f (k + 1) err))) = err"
      by (rule Cons.IH [OF Cons.prems(1)]) (use Cons.prems False in simp)
    with False show ?thesis
      by (simp add: is_EOF_line del: strncmp_eq.simps)
  qed
qed

lemma loop_first_EOF:
  assumes "filter (\<lambda>l. take 11 l = '':00000001FF'') pre = []"
    and "take 11 x = '':00000001FF''"
    and "length (filter (\<lambda>l. take 11 l = '':00000001FF'') post) < 255"
  shows "snd (snd (snd (checkEOF_loop (pre @ x # post) ll el 0 k err)))
         = err\<lparr>error_line := of_nat (k + length pre)\<rparr>"
proof -
  have "checkEOF_loop (pre @ x # post) ll el 0 k err
        = checkEOF_loop (x # post) (if pre = [] then ll else last pre) el 0 (k + length pre) err"
    by (rule loop_prefix_without_EOF [OF assms(1)])
  also have "\<dots> = checkEOF_loop post x x 1 (k + length pre + 1)
                     (err\<lparr>error_line := of_nat (k + length pre)\<rparr>)"
    using assms(2) by (simp add: is_EOF_line del: strncmp_eq.simps)
  finally show ?thesis
    using assms(3) by (simp add: loop_error_kept)
qed

subsection \<open>The verdict\<close>

lemma checkEOF_components:
  "checkEOF l0 e0 err lines =
     (let st = checkEOF_loop lines l0 e0 0 1 err;
          code = (if fst (snd (snd st)) = 0 then 1
                  else if fst (snd (snd st)) = 1
                       then (if fst st \<noteq> fst (snd st) then 2 else 0)
                       else 3)
      in (code, (snd (snd (snd st)))\<lparr>error_code := code\<rparr>))"
  by (simp add: checkEOF_def case_prod_beta Let_def)

lemma unat_of_nat_8: "m < 256 \<Longrightarrow> unat (of_nat m :: 8 word) = m"
  by (simp add: unat_of_nat)

lemma of_nat_8_small:
  assumes "m < 256"
  shows "((of_nat m :: 8 word) = 0) = (m = 0)" and "((of_nat m :: 8 word) = 1) = (m = 1)"
proof -
  have u: "unat (of_nat m :: 8 word) = m"
    using assms by (rule unat_of_nat_8)
  have "((of_nat m :: 8 word) = 0) = (unat (of_nat m :: 8 word) = unat (0 :: 8 word))"
    by (rule word_unat_eq_iff)
  then show "((of_nat m :: 8 word) = 0) = (m = 0)"
    unfolding u by simp
  have "((of_nat m :: 8 word) = 1) = (unat (of_nat m :: 8 word) = unat (1 :: 8 word))"
    by (rule word_unat_eq_iff)
  then show "((of_nat m :: 8 word) = 1) = (m = 1)"
    unfolding u by simp
qed

text \<open>No End-Of-File line: code 1; the line number is not touched.\<close>

lemma checkEOF_no_EOF:
  assumes "filter (\<lambda>l. take 11 l = '':00000001FF'') lines = []"
  shows "checkEOF l0 e0 err lines = (1, err\<lparr>error_code := 1\<rparr>)"
proof -
  have "checkEOF_loop (lines @ []) l0 e0 0 1 err
        = checkEOF_loop [] (if lines = [] then l0 else last lines) e0 0 (1 + length lines) err"
    by (rule loop_prefix_without_EOF [OF assms])
  then show ?thesis by (simp add: checkEOF_def)
qed

text \<open>
  Between 1 and 255 End-Of-File lines, the first of them \<open>x\<close> at line
  \<open>length pre + 1\<close>: with no other one the code is 2 when the text of \<open>x\<close> differs from the
  last line and 0 when it does not; with others the code is 3. The line number is that of
  \<open>x\<close> in all three cases.
\<close>

lemma checkEOF_first_EOF:
  assumes "filter (\<lambda>l. take 11 l = '':00000001FF'') pre = []"
    and "take 11 x = '':00000001FF''"
    and "length (filter (\<lambda>l. take 11 l = '':00000001FF'') post) < 255"
  shows "checkEOF l0 e0 err (pre @ x # post) =
     (let code = (if filter (\<lambda>l. take 11 l = '':00000001FF'') post = []
                  then (if x \<noteq> last (pre @ x # post) then 2 else 0) else 3)
      in (code, err\<lparr>error_line := of_nat (Suc (length pre)), error_code := code\<rparr>))"
proof -
  let ?P = "\<lambda>l. take 11 l = '':00000001FF''"
  let ?n = "length (filter ?P post)"
  have cnt: "length (filter ?P (pre @ x # post)) = Suc ?n"
    using assms(1,2) by simp
  have small: "Suc ?n < 256" using assms(3) by simp
  have f0: "(of_nat (Suc ?n) :: 8 word) \<noteq> 0"
    using of_nat_8_small(1) [OF small] by simp
  have f1: "((of_nat (Suc ?n) :: 8 word) = 1) = (filter ?P post = [])"
    using of_nat_8_small(2) [OF small] by simp
  have el: "filter ?P post = [] \<Longrightarrow> last (filter ?P (pre @ x # post)) = x"
    using assms(1,2) by simp
  have er: "snd (snd (snd (checkEOF_loop (pre @ x # post) l0 e0 0 1 err)))
            = err\<lparr>error_line := of_nat (Suc (length pre))\<rparr>"
    using loop_first_EOF [OF assms, of l0 e0 1 err] by simp
  show ?thesis
    unfolding checkEOF_components Let_def er loop_found_EOF loop_last_line loop_EOF_line cnt
    using f0 f1 el assms(2) by (auto simp del: of_nat_Suc)
qed

lemma filter_EOF_replicate:
  "filter (\<lambda>l. take 11 l = '':00000001FF'') (replicate n '':00000001FF\<newline>'')
   = replicate n '':00000001FF\<newline>''"
  by (induction n) simp_all

text \<open>
  C4 holds for files with fewer than 256 End-Of-File lines (the three lemmas above). The
  counter \<^verbatim>\<open>found_EOF\<close> is an \<^verbatim>\<open>int8_t\<close>: on a file of 256 End-Of-File lines it is back at
  0 and the function returns 1, the code for a file without such a line; on 257 of them
  it is 1 and the function returns 0.
\<close>

theorem checkEOF_counter_wraps:
  "fst (checkEOF l0 e0 err (replicate 256 '':00000001FF\<newline>'')) = 1
   \<and> fst (checkEOF l0 e0 err (replicate 257 '':00000001FF\<newline>'')) = 0"
proof -
  have z: "(of_nat 256 :: 8 word) = 0" "(of_nat 257 :: 8 word) = 1" by simp_all
  have n: "replicate 257 '':00000001FF\<newline>'' \<noteq> []" by simp
  show ?thesis
    unfolding checkEOF_components Let_def fst_conv loop_found_EOF loop_last_line
      loop_EOF_line filter_EOF_replicate length_replicate
    using z n by simp
qed

subsection \<open>Which lines count\<close>

text \<open>
  C10. A line counts as an End-Of-File line exactly when its first 11 characters are
  \<^verbatim>\<open>:00000001FF\<close>, whatever follows them; the counter after the loop is the number of such
  lines, on eight bits. When the counter ends at 1, the verdict compares the whole text
  of the last line with the whole text of the End-Of-File line: 2 when they differ, 0
  when they are equal.
\<close>

theorem EOF_occurrence_test:
  "strncmp_eq line '':00000001FF'' 11 = (take 11 line = '':00000001FF'')
   \<and> fst (snd (snd (checkEOF_loop lines l0 e0 0 1 err)))
       = of_nat (length (filter (\<lambda>l. take 11 l = '':00000001FF'') lines))
   \<and> (fst (snd (snd (checkEOF_loop lines l0 e0 0 1 err))) = 1 \<longrightarrow>
        fst (checkEOF l0 e0 err lines)
        = (if last lines \<noteq> last (filter (\<lambda>l. take 11 l = '':00000001FF'') lines)
           then 2 else 0))"
proof (intro conjI impI)
  show "strncmp_eq line '':00000001FF'' 11 = (take 11 line = '':00000001FF'')"
    by (rule is_EOF_line)
  show "fst (snd (snd (checkEOF_loop lines l0 e0 0 1 err)))
       = of_nat (length (filter (\<lambda>l. take 11 l = '':00000001FF'') lines))"
    by (simp add: loop_found_EOF)
next
  let ?P = "\<lambda>l. take 11 l = '':00000001FF''"
  assume one: "fst (snd (snd (checkEOF_loop lines l0 e0 0 1 err))) = 1"
  then have "(of_nat (length (filter ?P lines)) :: 8 word) = 1"
    by (simp add: loop_found_EOF)
  then have ne: "filter ?P lines \<noteq> []" by auto
  then have nl: "lines \<noteq> []" by auto
  show "fst (checkEOF l0 e0 err lines)
        = (if last lines \<noteq> last (filter ?P lines) then 2 else 0)"
    unfolding checkEOF_components Let_def fst_conv one
    using ne nl by (simp add: loop_last_line loop_EOF_line)
qed

theorem EOF_occurrence_test_witness:
  "fst (snd (snd (checkEOF_loop ['':0300300002337A1E\<newline>'', '':00000001FFxyz''] [] [] 0 1
                    \<lparr>error_code = 0, error_line = 0\<rparr>))) = 1
   \<and> fst (checkEOF [] [] \<lparr>error_code = 0, error_line = 0\<rparr>
            ['':0300300002337A1E\<newline>'', '':00000001FFxyz'']) = 0
   \<and> strncmp_eq '':00000001FF\<newline>'' '':00000001FF'' 11
   \<and> \<not> strncmp_eq '':00000001F'' '':00000001FF'' 11"
  using EOF_occurrence_test [of "'':00000001FF\<newline>''"
      "['':0300300002337A1E\<newline>'', '':00000001FFxyz'']" "[]" "[]"
      "\<lparr>error_code = 0, error_line = 0\<rparr>"]
    EOF_occurrence_test [of "'':00000001F''" "[]" "[]" "[]"
      "\<lparr>error_code = 0, error_line = 0\<rparr>"]
  by simp

section \<open>displayRecordInfo and the display scan\<close>

subsection \<open>One call\<close>

lemma display_defined:
  assumes "displayRecordInfo ind base line \<noteq> Undefined"
  shows "displayRecordInfo ind base line =
     (let r = display_record ind line
      in if record_type r = 0x00 then Returns (Data_Record r, address r)
         else if record_type r = 0x02 then
           Returns (Extended_Segment_Address_Record r base
                      (base + ucast (data r 0) * 0x1000 + ucast (data r 1) * 0x10), base)
         else if record_type r = 0x04 then
           Returns (Extended_Linear_Address_Record r base
                      (base + ucast (data r 0) * 0x1000000 + ucast (data r 1) * 0x10000), base)
         else Returns (End_Of_File_Record, base))"
proof -
  have "\<not> length line < 3"
    and "\<not> (byte_count (display_record ind line) \<noteq> 0
            \<and> length line < 9 + (unat (byte_count (display_record ind line)) - 1) * 2)"
    using assms unfolding displayRecordInfo_def Let_def by (auto split: if_splits)
  then show ?thesis
    unfolding displayRecordInfo_def Let_def by (simp only: if_False)
qed

lemma display_base_frame:
  assumes "displayRecordInfo ind base line = Returns (p, base')"
  shows "base' = (if record_type (display_record ind line) = 0
                  then address (display_record ind line) else base)"
proof -
  have "displayRecordInfo ind base line \<noteq> Undefined" using assms by simp
  from display_defined [OF this] assms show ?thesis
    by (simp add: Let_def split: if_splits)
qed

subsection \<open>The scan\<close>

lemma scanned_records_Cons:
  "scanned_records env n (line # lines)
   = display_record (env n) line # scanned_records env (n + 1) lines"
proof -
  have "[n..<n + length (line # lines)] = n # [n + 1..<n + 1 + length lines]"
    by (simp add: upt_conv_Cons del: upt_Suc)
  then show ?thesis
    unfolding scanned_records_def by (simp del: upt_Suc)
qed

lemma print_loop_base:
  assumes "print_loop env base n lines = Returns (ps, b)"
  shows "b = (let ds = filter (\<lambda>r. record_type r = 0) (scanned_records env n lines)
              in if ds = [] then base else address (last ds))"
  using assms
proof (induction lines arbitrary: base n ps)
  case Nil
  then show ?case by (simp add: scanned_records_def)
next
  case (Cons line lines)
  from Cons.prems obtain p base' ps' where
    d: "displayRecordInfo (env n) base line = Returns (p, base')"
    and l: "print_loop env base' (n + 1) lines = Returns (ps', b)"
    by (auto split: outcome.splits prod.splits)
  have base': "base' = (if record_type (display_record (env n) line) = 0
                        then address (display_record (env n) line) else base)"
    by (rule display_base_frame [OF d])
  from Cons.IH [OF l] base' show ?case
    unfolding scanned_records_Cons by (simp add: Let_def)
qed

subsection \<open>Three lines, evaluated\<close>

text \<open>
  The Data record at address 0030, an Extended Linear Address record with the data bytes
  00 01, and an Extended Segment Address record with the data bytes 12 00.
\<close>

lemma fields_data_line:
  "sscanf_header_fields '':0300300002337A1E\<newline>'' r
   = r\<lparr>byte_count := 3, address := 0x30, record_type := 0\<rparr>"
proof -
  have 1: "scan_X (Some 2) ''0300300002337A1E\<newline>'' = Some (3, ''00300002337A1E\<newline>'')"
    by code_simp
  have 2: "scan_X (Some 4) ''00300002337A1E\<newline>'' = Some (0x30, ''0002337A1E\<newline>'')"
    by code_simp
  have 3: "scan_X (Some 2) ''0002337A1E\<newline>'' = Some (0, ''02337A1E\<newline>'')"
    by code_simp
  show ?thesis by (simp add: sscanf_header_fields_def 1 2 3)
qed

lemma display_data_line:
  "byte_count (display_record ind '':0300300002337A1E\<newline>'') = 3"
  "address (display_record ind '':0300300002337A1E\<newline>'') = 0x30"
  "record_type (display_record ind '':0300300002337A1E\<newline>'') = 0"
proof -
  have c: "scan_X (Some 2) ''1E\<newline>'' = Some (0x1E, ''\<newline>'')"
    by code_simp
  show "byte_count (display_record ind '':0300300002337A1E\<newline>'') = 3"
    "address (display_record ind '':0300300002337A1E\<newline>'') = 0x30"
    "record_type (display_record ind '':0300300002337A1E\<newline>'') = 0"
    by (simp_all add: display_record_def fields_data_line Let_def c)
qed

lemma displayRecordInfo_data_line:
  "displayRecordInfo ind base '':0300300002337A1E\<newline>''
   = Returns (Data_Record (display_record ind '':0300300002337A1E\<newline>''), 0x30)"
  by (simp add: displayRecordInfo_def Let_def display_data_line)

lemma fields_linear_line:
  "sscanf_header_fields '':020000040001F9\<newline>'' r
   = r\<lparr>byte_count := 2, address := 0, record_type := 4\<rparr>"
proof -
  have 1: "scan_X (Some 2) ''020000040001F9\<newline>'' = Some (2, ''0000040001F9\<newline>'')"
    by code_simp
  have 2: "scan_X (Some 4) ''0000040001F9\<newline>'' = Some (0, ''040001F9\<newline>'')"
    by code_simp
  have 3: "scan_X (Some 2) ''040001F9\<newline>'' = Some (4, ''0001F9\<newline>'')"
    by code_simp
  show ?thesis by (simp add: sscanf_header_fields_def 1 2 3)
qed

lemma data_linear_line:
  "parse_data '':020000040001F9\<newline>'' 2 m = store_uint (store_uint m 0 0) 1 1"
proof -
  have 1: "scan_X (Some 2) ''0001F9\<newline>'' = Some (0, ''01F9\<newline>'')"
    by code_simp
  have 2: "scan_X (Some 2) ''01F9\<newline>'' = Some (1, ''F9\<newline>'')"
    by code_simp
  show ?thesis by (simp add: parse_data_def upt_2 1 2)
qed

lemma display_linear_line:
  "byte_count (display_record ind '':020000040001F9\<newline>'') = 2"
  "address (display_record ind '':020000040001F9\<newline>'') = 0"
  "record_type (display_record ind '':020000040001F9\<newline>'') = 4"
  "data (display_record ind '':020000040001F9\<newline>'') 0 = 0"
  "data (display_record ind '':020000040001F9\<newline>'') (Suc 0) = 1"
proof -
  have c: "scan_X (Some 2) ''F9\<newline>'' = Some (0xF9, ''\<newline>'')"
    by code_simp
  have r: "display_record ind '':020000040001F9\<newline>''
     = (local_record ind)\<lparr>byte_count := 2, address := 0, record_type := 4,
          data := store_uint (store_uint (malloc_block ind) 0 0) 1 1, checksum := 0xF9\<rparr>"
    by (simp add: display_record_def fields_linear_line Let_def c data_linear_line)
  show "byte_count (display_record ind '':020000040001F9\<newline>'') = 2"
    "address (display_record ind '':020000040001F9\<newline>'') = 0"
    "record_type (display_record ind '':020000040001F9\<newline>'') = 4"
    "data (display_record ind '':020000040001F9\<newline>'') 0 = 0"
    "data (display_record ind '':020000040001F9\<newline>'') (Suc 0) = 1"
    unfolding r by (simp_all add: store_uint_def)
qed

lemma displayRecordInfo_linear_line:
  "displayRecordInfo ind base '':020000040001F9\<newline>''
   = Returns (Extended_Linear_Address_Record (display_record ind '':020000040001F9\<newline>'')
                base (base + 0x10000), base)"
  by (simp add: displayRecordInfo_def Let_def display_linear_line)

lemma fields_segment_line:
  "sscanf_header_fields '':020000021200EA\<newline>'' r
   = r\<lparr>byte_count := 2, address := 0, record_type := 2\<rparr>"
proof -
  have 1: "scan_X (Some 2) ''020000021200EA\<newline>'' = Some (2, ''0000021200EA\<newline>'')"
    by code_simp
  have 2: "scan_X (Some 4) ''0000021200EA\<newline>'' = Some (0, ''021200EA\<newline>'')"
    by code_simp
  have 3: "scan_X (Some 2) ''021200EA\<newline>'' = Some (2, ''1200EA\<newline>'')"
    by code_simp
  show ?thesis by (simp add: sscanf_header_fields_def 1 2 3)
qed

lemma data_segment_line:
  "parse_data '':020000021200EA\<newline>'' 2 m = store_uint (store_uint m 0 0x12) 1 0"
proof -
  have 1: "scan_X (Some 2) ''1200EA\<newline>'' = Some (0x12, ''00EA\<newline>'')"
    by code_simp
  have 2: "scan_X (Some 2) ''00EA\<newline>'' = Some (0, ''EA\<newline>'')"
    by code_simp
  show ?thesis by (simp add: parse_data_def upt_2 1 2)
qed

lemma display_segment_line:
  "byte_count (display_record ind '':020000021200EA\<newline>'') = 2"
  "record_type (display_record ind '':020000021200EA\<newline>'') = 2"
  "data (display_record ind '':020000021200EA\<newline>'') 0 = 0x12"
  "data (display_record ind '':020000021200EA\<newline>'') (Suc 0) = 0"
proof -
  have c: "scan_X (Some 2) ''EA\<newline>'' = Some (0xEA, ''\<newline>'')"
    by code_simp
  have r: "display_record ind '':020000021200EA\<newline>''
     = (local_record ind)\<lparr>byte_count := 2, address := 0, record_type := 2,
          data := store_uint (store_uint (malloc_block ind) 0 0x12) 1 0, checksum := 0xEA\<rparr>"
    by (simp add: display_record_def fields_segment_line Let_def c data_segment_line)
  show "byte_count (display_record ind '':020000021200EA\<newline>'') = 2"
    "record_type (display_record ind '':020000021200EA\<newline>'') = 2"
    "data (display_record ind '':020000021200EA\<newline>'') 0 = 0x12"
    "data (display_record ind '':020000021200EA\<newline>'') (Suc 0) = 0"
    unfolding r by (simp_all add: store_uint_def)
qed

lemma displayRecordInfo_segment_line:
  "displayRecordInfo ind base '':020000021200EA\<newline>''
   = Returns (Extended_Segment_Address_Record (display_record ind '':020000021200EA\<newline>'')
                base (base + 0x12000), base)"
  by (simp add: displayRecordInfo_def Let_def display_segment_line)

subsection \<open>No wrap-around from a 16-bit base\<close>

lemma unat_byte_bound: "unat (d :: 8 word) < 256"
  using unsigned_less [of d, where 'a = nat] by simp

lemma linear_address_exact:
  assumes "unat (base :: 32 word) < 65536"
  shows "unat (base + ucast (d0 :: 8 word) * 0x1000000 + ucast (d1 :: 8 word) * 0x10000)
         = unat base + unat d0 * 16777216 + unat d1 * 65536"
proof -
  have b0: "unat d0 < 256" and b1: "unat d1 < 256"
    by (rule unat_byte_bound)+
  have w: "(of_nat (unat base + unat d0 * 16777216 + unat d1 * 65536) :: 32 word)
        = base + ucast d0 * 0x1000000 + ucast d1 * 0x10000"
    by simp
  have "unat base + unat d0 * 16777216 + unat d1 * 65536 < 2 ^ LENGTH(32)"
    using assms b0 b1 by simp
  from of_nat_inverse [OF w this] show ?thesis .
qed

lemma segment_address_exact:
  assumes "unat (base :: 32 word) < 65536"
  shows "unat (base + ucast (d0 :: 8 word) * 0x1000 + ucast (d1 :: 8 word) * 0x10)
         = unat base + unat d0 * 4096 + unat d1 * 16"
proof -
  have b0: "unat d0 < 256" and b1: "unat d1 < 256"
    by (rule unat_byte_bound)+
  have w: "(of_nat (unat base + unat d0 * 4096 + unat d1 * 16) :: 32 word)
        = base + ucast d0 * 0x1000 + ucast d1 * 0x10"
    by simp
  have "unat base + unat d0 * 4096 + unat d1 * 16 < 2 ^ LENGTH(32)"
    using assms b0 b1 by simp
  from of_nat_inverse [OF w this] show ?thesis .
qed

subsection \<open>Extended Linear Address records\<close>

text \<open>
  C7. For every record of type 04 that the function can read within its line, the
  absolute address printed is the base address plus \<^verbatim>\<open>data[0]\<close> times 0x1000000 plus
  \<^verbatim>\<open>data[1]\<close> times 0x10000, on 32 bits, and the base address stays. From a base address
  of 16 bits the sum does not wrap around: it is that number. After the Data record at
  address 0030, the Extended Linear Address record with the data bytes 00 01 prints the
  absolute address 00010030.
\<close>

theorem linear_address_resolution:
  "(record_type (display_record ind line) = 4 \<and> displayRecordInfo ind base line \<noteq> Undefined
      \<longrightarrow> displayRecordInfo ind base line
          = Returns (Extended_Linear_Address_Record (display_record ind line) base
                       (base + ucast (data (display_record ind line) 0) * 0x1000000
                             + ucast (data (display_record ind line) 1) * 0x10000),
                     base))
   \<and> (unat base < 65536 \<longrightarrow>
        unat (base + ucast (data (display_record ind line) 0) * 0x1000000
                   + ucast (data (display_record ind line) 1) * 0x10000)
        = unat base + unat (data (display_record ind line) 0) * 0x1000000
                    + unat (data (display_record ind line) 1) * 0x10000)
   \<and> (case printIntelHexFile env base_address_init
              ['':0300300002337A1E\<newline>'', '':020000040001F9\<newline>''] of
         Undefined \<Rightarrow> False
       | Returns (ps, b) \<Rightarrow> map printed_address ps = [None, Some 0x00010030])"
proof (intro conjI impI)
  assume "unat base < 65536"
  then show "unat (base + ucast (data (display_record ind line) 0) * 0x1000000
                   + ucast (data (display_record ind line) 1) * 0x10000)
        = unat base + unat (data (display_record ind line) 0) * 0x1000000
                    + unat (data (display_record ind line) 1) * 0x10000"
    using linear_address_exact by simp
next
  assume a: "record_type (display_record ind line) = 4
             \<and> displayRecordInfo ind base line \<noteq> Undefined"
  then have "displayRecordInfo ind base line \<noteq> Undefined" by simp
  from display_defined [OF this] a
  show "displayRecordInfo ind base line
          = Returns (Extended_Linear_Address_Record (display_record ind line) base
                       (base + ucast (data (display_record ind line) 0) * 0x1000000
                             + ucast (data (display_record ind line) 1) * 0x10000),
                     base)"
    by (simp add: Let_def)
next
  show "case printIntelHexFile env base_address_init
              ['':0300300002337A1E\<newline>'', '':020000040001F9\<newline>''] of
         Undefined \<Rightarrow> False
       | Returns (ps, b) \<Rightarrow> map printed_address ps = [None, Some 0x00010030]"
    by (simp add: printIntelHexFile_def displayRecordInfo_data_line
        displayRecordInfo_linear_line printed_address_def)
qed

theorem linear_address_resolution_witness:
  "record_type (display_record zero_indeterminate '':020000040001F9\<newline>'') = 4
   \<and> displayRecordInfo zero_indeterminate 0x30 '':020000040001F9\<newline>'' \<noteq> Undefined
   \<and> unat (0x30 :: 32 word) < 65536
   \<and> (case displayRecordInfo zero_indeterminate 0x30 '':020000040001F9\<newline>'' of
         Undefined \<Rightarrow> False
       | Returns (p, b) \<Rightarrow> printed_address p = Some 0x00010030 \<and> b = 0x30)"
  using linear_address_resolution [of zero_indeterminate "'':020000040001F9\<newline>''" "0x30"]
  by (simp add: display_linear_line displayRecordInfo_linear_line printed_address_def)

subsection \<open>The base address\<close>

text \<open>
  C8. The static base address starts at 0, and the program runs the display scan once,
  from that value. A call changes the base address only when the record type is 00, and
  then sets it to the address field of that record: a record of type 02 that the function
  can read within its line prints the base address plus \<^verbatim>\<open>data[0]\<close> times 0x1000 plus
  \<^verbatim>\<open>data[1]\<close> times 0x10 (that number itself, from a base address of 16 bits) and leaves
  the base address as it was. So after the scan of any
  file the base address is the address field of the last Data record, or 0 when the file
  has none.
\<close>

theorem base_address_frame:
  "base_address_init = 0
   \<and> (displayRecordInfo ind base line = Returns (p, base') \<longrightarrow>
        base' = (if record_type (display_record ind line) = 0
                 then address (display_record ind line) else base))
   \<and> (record_type (display_record ind line) = 2
        \<and> displayRecordInfo ind base line \<noteq> Undefined \<longrightarrow>
        displayRecordInfo ind base line
        = Returns (Extended_Segment_Address_Record (display_record ind line) base
                     (base + ucast (data (display_record ind line) 0) * 0x1000
                           + ucast (data (display_record ind line) 1) * 0x10),
                   base))
   \<and> (unat base < 65536 \<longrightarrow>
        unat (base + ucast (data (display_record ind line) 0) * 0x1000
                   + ucast (data (display_record ind line) 1) * 0x10)
        = unat base + unat (data (display_record ind line) 0) * 0x1000
                    + unat (data (display_record ind line) 1) * 0x10)
   \<and> (printIntelHexFile env base_address_init lines = Returns (ps, b) \<longrightarrow>
        b = (let ds = filter (\<lambda>r. record_type r = 0) (scanned_records env 1 lines)
             in if ds = [] then 0 else address (last ds)))"
proof (intro conjI impI)
  show "base_address_init = 0" by (simp add: base_address_init_def)
next
  assume "unat base < 65536"
  then show "unat (base + ucast (data (display_record ind line) 0) * 0x1000
                   + ucast (data (display_record ind line) 1) * 0x10)
        = unat base + unat (data (display_record ind line) 0) * 0x1000
                    + unat (data (display_record ind line) 1) * 0x10"
    using segment_address_exact by simp
next
  assume "displayRecordInfo ind base line = Returns (p, base')"
  then show "base' = (if record_type (display_record ind line) = 0
                      then address (display_record ind line) else base)"
    by (rule display_base_frame)
next
  assume a: "record_type (display_record ind line) = 2
             \<and> displayRecordInfo ind base line \<noteq> Undefined"
  then have "displayRecordInfo ind base line \<noteq> Undefined" by simp
  from display_defined [OF this] a
  show "displayRecordInfo ind base line
        = Returns (Extended_Segment_Address_Record (display_record ind line) base
                     (base + ucast (data (display_record ind line) 0) * 0x1000
                           + ucast (data (display_record ind line) 1) * 0x10),
                   base)"
    by (simp add: Let_def)
next
  assume "printIntelHexFile env base_address_init lines = Returns (ps, b)"
  then have "print_loop env 0 1 lines = Returns (ps, b)"
    by (simp add: printIntelHexFile_def base_address_init_def)
  then show "b = (let ds = filter (\<lambda>r. record_type r = 0) (scanned_records env 1 lines)
                  in if ds = [] then 0 else address (last ds))"
    by (rule print_loop_base)
qed

theorem base_address_frame_witness:
  "displayRecordInfo zero_indeterminate 0 '':0300300002337A1E\<newline>''
     = Returns (Data_Record (display_record zero_indeterminate '':0300300002337A1E\<newline>''),
                0x30)
   \<and> record_type (display_record zero_indeterminate '':020000021200EA\<newline>'') = 2
   \<and> displayRecordInfo zero_indeterminate 0x30 '':020000021200EA\<newline>'' \<noteq> Undefined
   \<and> unat (0x30 :: 32 word) < 65536
   \<and> (case displayRecordInfo zero_indeterminate 0x30 '':020000021200EA\<newline>'' of
         Undefined \<Rightarrow> False
       | Returns (p, b) \<Rightarrow> printed_address p = Some 0x00012030 \<and> b = 0x30)
   \<and> (case printIntelHexFile (\<lambda>n. zero_indeterminate) base_address_init
              ['':0300300002337A1E\<newline>'', '':020000021200EA\<newline>''] of
         Undefined \<Rightarrow> False
       | Returns (ps, b) \<Rightarrow> b = 0x30)"
proof -
  let ?data = "'':0300300002337A1E\<newline>''"
  let ?seg = "'':020000021200EA\<newline>''"
  let ?ps = "[Data_Record (display_record zero_indeterminate ?data),
              Extended_Segment_Address_Record (display_record zero_indeterminate ?seg)
                0x30 0x12030]"
  have d: "displayRecordInfo zero_indeterminate 0 ?data
           = Returns (Data_Record (display_record zero_indeterminate ?data), 0x30)"
    by (rule displayRecordInfo_data_line)
  have t: "record_type (display_record zero_indeterminate ?seg) = 2"
    by (rule display_segment_line(2))
  have u: "displayRecordInfo zero_indeterminate 0x30 ?seg \<noteq> Undefined"
    by (simp add: displayRecordInfo_segment_line)
  have run: "printIntelHexFile (\<lambda>n. zero_indeterminate) base_address_init [?data, ?seg]
             = Returns (?ps, 0x30)"
    by (simp add: printIntelHexFile_def displayRecordInfo_data_line
        displayRecordInfo_segment_line)
  note frame = base_address_frame [where ind = zero_indeterminate and base = "0x30"
      and line = ?seg and env = "\<lambda>n. zero_indeterminate" and lines = "[?data, ?seg]"
      and ps = ?ps and b = "0x30"]
  from frame t u have seg:
    "displayRecordInfo zero_indeterminate 0x30 ?seg
     = Returns (Extended_Segment_Address_Record (display_record zero_indeterminate ?seg) 0x30
                  (0x30 + ucast (data (display_record zero_indeterminate ?seg) 0) * 0x1000
                        + ucast (data (display_record zero_indeterminate ?seg) 1) * 0x10),
                0x30)"
    by blast
  have p: "case displayRecordInfo zero_indeterminate 0x30 ?seg of
             Undefined \<Rightarrow> False
           | Returns (p, b) \<Rightarrow> printed_address p = Some 0x00012030 \<and> b = 0x30"
    unfolding seg by (simp add: printed_address_def display_segment_line)
  have q: "case printIntelHexFile (\<lambda>n. zero_indeterminate) base_address_init [?data, ?seg] of
             Undefined \<Rightarrow> False
           | Returns (ps, b) \<Rightarrow> b = 0x30"
    unfolding run by simp
  have v: "unat (0x30 :: 32 word) < 65536" by simp
  from d t u v p q show ?thesis by (intro conjI)
qed

end
